theory Spec2Isabelle
  imports Main "HOL-Library.Sublist"
begin

section \<open>Python strings\<close>

text \<open>
  A Python \<open>str\<close> is modelled as a \<open>string\<close> whose characters are the code points
  0..255 (Latin-1). On these, \<open>str.lower\<close> maps \<open>A\<close>..\<open>Z\<close> (65..90) and the
  capital letters 192..222, the multiplication sign 215 apart, to the code point 32
  higher, and leaves every other character as it is; the whitespace of \<open>str.strip\<close>
  and \<open>str.split\<close> is 9..13, 28..32, 133 and 160. Code points above 255 are outside
  the character type.
\<close>

definition is_space :: "char \<Rightarrow> bool" where
  "is_space c =
     (let n = (of_char c :: nat)
      in (9 \<le> n \<and> n \<le> 13) \<or> (28 \<le> n \<and> n \<le> 32) \<or> n = 133 \<or> n = 160)"

definition lower_char :: "char \<Rightarrow> char" where
  "lower_char c =
     (let n = (of_char c :: nat)
      in if (65 \<le> n \<and> n \<le> 90) \<or> (192 \<le> n \<and> n \<le> 222 \<and> n \<noteq> 215)
         then char_of (n + 32) else c)"

text \<open>\<open>s.lower()\<close>\<close>

definition lower :: "string \<Rightarrow> string" where
  "lower s = map lower_char s"

text \<open>\<open>s.strip()\<close>\<close>

definition strip :: "string \<Rightarrow> string" where
  "strip s = rev (dropWhile is_space (rev (dropWhile is_space s)))"

text \<open>\<open>s.split()\<close>: the maximal runs of non-whitespace, \<open>cur\<close> being the run read so far.\<close>

fun split_acc :: "string \<Rightarrow> string \<Rightarrow> string list" where
  "split_acc cur [] = (if cur = [] then [] else [cur])"
| "split_acc cur (c # cs) =
     (if is_space c then (if cur = [] then split_acc [] cs else cur # split_acc [] cs)
      else split_acc (cur @ [c]) cs)"

definition split_ws :: "string \<Rightarrow> string list" where
  "split_ws s = split_acc [] s"

text \<open>\<open>s.split(d)\<close> for a one-character separator: always at least one segment.\<close>

fun split_on :: "char \<Rightarrow> string \<Rightarrow> string \<Rightarrow> string list" where
  "split_on d cur [] = [cur]"
| "split_on d cur (c # cs) =
     (if c = d then cur # split_on d [] cs else split_on d (cur @ [c]) cs)"

text \<open>\<open>sep.join(ws)\<close>\<close>

fun join :: "string \<Rightarrow> string list \<Rightarrow> string" where
  "join sep [] = []"
| "join sep [w] = w"
| "join sep (w # v # ws) = w @ sep @ join sep (v # ws)"

text \<open>\<open>s.replace(pat, "", 1)\<close> for a non-empty \<open>pat\<close>: the first occurrence is removed.\<close>

fun remove_first :: "string \<Rightarrow> string \<Rightarrow> string" where
  "remove_first pat [] = []"
| "remove_first pat (c # cs) =
     (if prefix pat (c # cs) then drop (length pat) (c # cs) else c # remove_first pat cs)"

text \<open>\<open>s.replace(a, b)\<close> for one-character \<open>a\<close> and \<open>b\<close>.\<close>

definition replace_char :: "char \<Rightarrow> char \<Rightarrow> string \<Rightarrow> string" where
  "replace_char a b s = map (\<lambda>c. if c = a then b else c) s"

text \<open>\<open>str(n)\<close> for an integer.\<close>

fun str_nat :: "nat \<Rightarrow> string" where
  "str_nat n =
     (if n < 10 then [char_of (48 + n)] else str_nat (n div 10) @ [char_of (48 + n mod 10)])"

definition str_int :: "int \<Rightarrow> string" where
  "str_int i = (if i < 0 then ''-'' @ str_nat (nat (- i)) else str_nat (nat i))"

text \<open>
  \<open>pat in s\<close> on strings is \<^const>\<open>sublist\<close> (a contiguous occurrence) and
  \<open>s.startswith(pat)\<close> is \<^const>\<open>prefix\<close>.
\<close>

section \<open>Dynamic values, exceptions, effects\<close>

text \<open>
  A value decoded from JSON, which is also what \<open>speak\<close> may receive as a headline.
  A number is modelled as an integer: the program only tests whether it is zero.
\<close>

datatype json =
    JNull
  | JBool bool
  | JNum int
  | JStr string
  | JArr "json list"
  | JObj "(string \<times> json) list"

text \<open>Python truthiness: \<open>if not v\<close>.\<close>

fun truthy :: "json \<Rightarrow> bool" where
  "truthy JNull = False"
| "truthy (JBool b) = b"
| "truthy (JNum n) = (n \<noteq> 0)"
| "truthy (JStr s) = (s \<noteq> [])"
| "truthy (JArr xs) = (xs \<noteq> [])"
| "truthy (JObj kvs) = (kvs \<noteq> [])"

text \<open>
  The exceptions are instances of Python's \<open>Exception\<close>, the class every handler of the
  program catches. Interrupt signals are not modelled.
\<close>

datatype exn =
    GttsError
  | PyttError
  | BrowserError
  | RequestsError
  | JSONDecodeError
  | OpenAIError
  | AttributeError
  | TypeError
  | KeyError

text \<open>
  What the program does to the outside world, in order: a browser launch, a run of the
  primary (gTTS and pygame) or secondary (pyttsx3) synthesis path on a text, an HTTP GET,
  a chat completion request. Console logging and \<open>time.sleep\<close> are not recorded.
\<close>

datatype event =
    Open string
  | Gtts string
  | Pytt string
  | HttpGet string
  | Chat string

datatype http_result =
    ConnectionFails
  | Response int "json option"

text \<open>
  The module-level configuration and the collaborators. Each collaborator's outcome may
  depend on everything that happened before, the call itself included: \<open>gtts_ok w tr\<close>
  tells whether the primary synthesis path completes when \<open>tr\<close> is the trace up to and
  including that call. \<open>music\<close> is \<open>musicLibrary.music\<close>, its items in iteration order,
  and \<open>None\<close> when the module or the attribute is missing. \<open>Response st body\<close> carries the
  status code and the decoded body, \<open>None\<close> when the body is not JSON.
\<close>

record world =
  NEWS_API_KEY :: "string option"
  OPENAI_API_KEY :: "string option"
  OpenAI :: bool
  music :: "(string \<times> string) list option"
  gtts_ok :: "event list \<Rightarrow> bool"
  pytt_ok :: "event list \<Rightarrow> bool"
  browser_ok :: "event list \<Rightarrow> bool"
  news_service :: "event list \<Rightarrow> http_result"
  ai_service :: "event list \<Rightarrow> string option"

datatype 'a outcome = Returns 'a | Raises exn

text \<open>A computation extends the trace and returns a value or raises.\<close>

type_synonym 'a comp = "event list \<Rightarrow> 'a outcome \<times> event list"

definition returns :: "'a \<Rightarrow> 'a comp" where
  "returns x tr = (Returns x, tr)"

definition raises :: "exn \<Rightarrow> 'a comp" where
  "raises e tr = (Raises e, tr)"

definition and_then :: "'a comp \<Rightarrow> ('a \<Rightarrow> 'b comp) \<Rightarrow> 'b comp" where
  "and_then m f tr =
     (case m tr of (Returns x, tr') \<Rightarrow> f x tr' | (Raises e, tr') \<Rightarrow> (Raises e, tr'))"

definition seq :: "unit comp \<Rightarrow> 'b comp \<Rightarrow> 'b comp" where
  "seq m n = and_then m (\<lambda>_. n)"

text \<open>\<open>try: m  except Exception as e: h e\<close>\<close>

definition try_except :: "'a comp \<Rightarrow> (exn \<Rightarrow> 'a comp) \<Rightarrow> 'a comp" where
  "try_except m h tr =
     (case m tr of (Returns x, tr') \<Rightarrow> (Returns x, tr') | (Raises e, tr') \<Rightarrow> h e tr')"

text \<open>\<open>for x in xs: f(x)\<close>\<close>

fun for_each :: "('a \<Rightarrow> unit comp) \<Rightarrow> 'a list \<Rightarrow> unit comp" where
  "for_each f [] = returns ()"
| "for_each f (x # xs) = seq (f x) (for_each f xs)"

text \<open>\<open>[f(x) for x in xs]\<close>\<close>

fun comprehension :: "('a \<Rightarrow> 'b comp) \<Rightarrow> 'a list \<Rightarrow> 'b list comp" where
  "comprehension f [] = returns []"
| "comprehension f (x # xs) =
     and_then (f x) (\<lambda>y. and_then (comprehension f xs) (\<lambda>ys. returns (y # ys)))"

text \<open>A call of a collaborator that returns nothing.\<close>

definition call :: "event \<Rightarrow> (event list \<Rightarrow> bool) \<Rightarrow> exn \<Rightarrow> unit comp" where
  "call ev ok e tr = (let tr' = tr @ [ev] in if ok tr' then (Returns (), tr') else (Raises e, tr'))"

text \<open>The body of the outer \<open>try\<close> of \<open>speak_with_pygame\<close>, and the body of the inner one.\<close>

definition gtts_play :: "world \<Rightarrow> string \<Rightarrow> unit comp" where
  "gtts_play w text = call (Gtts text) (gtts_ok w) GttsError"

definition pytt_say :: "world \<Rightarrow> string \<Rightarrow> unit comp" where
  "pytt_say w text = call (Pytt text) (pytt_ok w) PyttError"

definition webbrowser_open :: "world \<Rightarrow> string \<Rightarrow> unit comp" where
  "webbrowser_open w url = call (Open url) (browser_ok w) BrowserError"

definition requests_get :: "world \<Rightarrow> string \<Rightarrow> (int \<times> json option) comp" where
  "requests_get w url tr =
     (let tr' = tr @ [HttpGet url] in
      case news_service w tr' of
        ConnectionFails \<Rightarrow> (Raises RequestsError, tr')
      | Response st body \<Rightarrow> (Returns (st, body), tr'))"

definition chat_create :: "world \<Rightarrow> string \<Rightarrow> string comp" where
  "chat_create w command tr =
     (let tr' = tr @ [Chat command] in
      case ai_service w tr' of
        None \<Rightarrow> (Raises OpenAIError, tr')
      | Some content \<Rightarrow> (Returns content, tr'))"

text \<open>\<open>r.json()\<close>, \<open>d.get(k, default)\<close>, \<open>d[k]\<close> and iteration, on dynamic values.\<close>

definition r_json :: "json option \<Rightarrow> json comp" where
  "r_json body = (case body of None \<Rightarrow> raises JSONDecodeError | Some d \<Rightarrow> returns d)"

definition dict_get :: "json \<Rightarrow> string \<Rightarrow> json \<Rightarrow> json comp" where
  "dict_get d k dflt =
     (case d of
        JObj kvs \<Rightarrow> returns (case map_of kvs k of Some v \<Rightarrow> v | None \<Rightarrow> dflt)
      | _ \<Rightarrow> raises AttributeError)"

definition iterate :: "json \<Rightarrow> json list comp" where
  "iterate v =
     (case v of
        JArr xs \<Rightarrow> returns xs
      | JStr s \<Rightarrow> returns (map (\<lambda>c. JStr [c]) s)
      | JObj kvs \<Rightarrow> returns (map (\<lambda>kv. JStr (fst kv)) kvs)
      | _ \<Rightarrow> raises TypeError)"

definition dict_item :: "(string \<times> string) list \<Rightarrow> string \<Rightarrow> string comp" where
  "dict_item m k = (case map_of m k of Some v \<Rightarrow> returns v | None \<Rightarrow> raises KeyError)"

section \<open>The program\<close>

definition speak_with_pygame :: "world \<Rightarrow> string \<Rightarrow> unit comp" where
  "speak_with_pygame w text =
     try_except (gtts_play w text)
       (\<lambda>e. try_except (pytt_say w text) (\<lambda>e2. returns ()))"

definition chunks :: "string \<Rightarrow> string list" where
  "chunks text = map strip (filter (\<lambda>c. strip c \<noteq> []) (split_on CHR ''.'' [] text))"

definition speak :: "world \<Rightarrow> json \<Rightarrow> unit comp" where
  "speak w text =
     (if \<not> truthy text then returns ()
      else case text of
             JStr s \<Rightarrow> for_each (\<lambda>chunk. speak_with_pygame w (chunk @ ''.'')) (chunks s)
           | _ \<Rightarrow> raises AttributeError)"

definition aiProcess :: "world \<Rightarrow> string \<Rightarrow> string comp" where
  "aiProcess w command =
     (if OPENAI_API_KEY w = None \<or> \<not> OpenAI w
      then returns
        ''AI not configured. Please set OPENAI_API_KEY in client.py and install openai package.''
      else try_except
        (and_then (chat_create w command) (\<lambda>content. returns (strip content)))
        (\<lambda>e. returns ''Sorry, I couldn't reach the AI service.''))"

definition get_headlines :: "world \<Rightarrow> string \<Rightarrow> int \<Rightarrow> json list comp" where
  "get_headlines w country page_size =
     (case NEWS_API_KEY w of
        None \<Rightarrow> returns [JStr ''News API key not configured. Put NEWS_API_KEY in client.py.'']
      | Some key \<Rightarrow>
          if key = []
          then returns [JStr ''News API key not configured. Put NEWS_API_KEY in client.py.'']
          else try_except
            (and_then
               (requests_get w (''https://newsapi.org/v2/top-headlines?country=in&apiKey='' @ key))
               (\<lambda>(status_code, body).
                  if status_code \<noteq> 200
                  then returns [JStr (''Failed to fetch news: HTTP '' @ str_int status_code)]
                  else and_then (r_json body) (\<lambda>data.
                       and_then (dict_get data ''articles'' (JArr [])) (\<lambda>articles.
                       if \<not> truthy articles then returns [JStr ''No news articles found.'']
                       else and_then (iterate articles)
                              (comprehension (\<lambda>a. dict_get a ''title'' (JStr ''Untitled'')))))))
            (\<lambda>e. returns [JStr ''Error fetching news.'']))"

definition normalize_key :: "string \<Rightarrow> string" where
  "normalize_key s = join '' '' (split_ws (strip (lower s)))"

text \<open>The local variable \<open>remainder\<close> of \<open>handle_play_command\<close>.\<close>

definition remainder :: "string \<Rightarrow> string" where
  "remainder command_text = strip (remove_first ''play'' (lower command_text))"

text \<open>The two statements of a catalog hit, and the statements after the catalog block.\<close>

definition play_hit :: "world \<Rightarrow> string \<Rightarrow> string \<Rightarrow> unit comp" where
  "play_hit w url label =
     seq (webbrowser_open w url) (speak w (JStr (''Playing '' @ label @ ''.'')))"

definition youtube_fallback :: "world \<Rightarrow> string \<Rightarrow> unit comp" where
  "youtube_fallback w rem =
     seq (webbrowser_open w
            (''https://www.youtube.com/results?search_query=''
               @ replace_char CHR '' '' CHR ''+'' rem))
         (speak w (JStr (''Couldn't find the exact song locally. Searching YouTube for ''
                           @ rem @ ''.'')))"

definition handle_play_command :: "world \<Rightarrow> string \<Rightarrow> unit comp" where
  "handle_play_command w command_text =
     (let rem = remainder command_text in
      if rem = [] then speak w (JStr ''Which song should I play?'')
      else if prefix ''http://'' rem \<or> prefix ''https://'' rem
      then seq (webbrowser_open w rem) (speak w (JStr ''Playing from URL.''))
      else case music w of
             None \<Rightarrow> youtube_fallback w rem
           | Some m \<Rightarrow>
               (let key = normalize_key rem in
                case map_of m key of
                  Some url \<Rightarrow> play_hit w url rem
                | None \<Rightarrow>
                    (case find (\<lambda>k. sublist key k) (map fst m) of
                       Some k \<Rightarrow> and_then (dict_item m k) (\<lambda>url. play_hit w url k)
                     | None \<Rightarrow>
                         (case find (\<lambda>k. prefix key k) (map fst m) of
                            Some k \<Rightarrow> and_then (dict_item m k) (\<lambda>url. play_hit w url k)
                          | None \<Rightarrow> youtube_fallback w rem))))"

text \<open>The body of the \<open>try\<close> of \<open>processCommand\<close>: \<open>c\<close> is stripped, \<open>low\<close> is \<open>c.lower()\<close>.\<close>

definition dispatch :: "world \<Rightarrow> string \<Rightarrow> string \<Rightarrow> unit comp" where
  "dispatch w c low =
     (if sublist ''open google'' low
      then seq (webbrowser_open w ''https://google.com'') (speak w (JStr ''Opening Google.''))
      else if sublist ''open facebook'' low
      then seq (webbrowser_open w ''https://facebook.com'') (speak w (JStr ''Opening Facebook.''))
      else if sublist ''open youtube'' low
      then seq (webbrowser_open w ''https://youtube.com'') (speak w (JStr ''Opening YouTube.''))
      else if sublist ''open linkedin'' low
      then seq (webbrowser_open w ''https://linkedin.com'') (speak w (JStr ''Opening LinkedIn.''))
      else if prefix ''play'' low
      then handle_play_command w c
      else if sublist ''news'' low
      then seq (speak w (JStr ''Fetching the top headlines.''))
             (and_then (get_headlines w ''in'' 5) (for_each (speak w)))
      else seq (speak w (JStr ''Let me check.''))
             (and_then (aiProcess w c) (\<lambda>answer. speak w (JStr answer))))"

definition processCommand :: "world \<Rightarrow> string \<Rightarrow> unit comp" where
  "processCommand w c0 =
     (let c = strip c0 in
      if c = [] then returns ()
      else try_except (dispatch w c (lower c))
             (\<lambda>e. speak w (JStr ''Sorry, I encountered an error while processing the command.'')))"

section \<open>Reading a trace\<close>

text \<open>The texts of the synthesis calls: every call of \<open>speak_with_pygame\<close> starts with
  one run of the primary path.\<close>

fun gtts_texts :: "event list \<Rightarrow> string list" where
  "gtts_texts [] = []"
| "gtts_texts (Gtts t # tr) = t # gtts_texts tr"
| "gtts_texts (_ # tr) = gtts_texts tr"

text \<open>The texts that went through the secondary path.\<close>

fun pytt_texts :: "event list \<Rightarrow> string list" where
  "pytt_texts [] = []"
| "pytt_texts (Pytt t # tr) = t # pytt_texts tr"
| "pytt_texts (_ # tr) = pytt_texts tr"

text \<open>
  The failure semantics of the speech adapter as the specification words it, for the
  chunk texts of one utterance in order: each text is tried on the primary path, on the
  secondary path exactly when the primary failed, and the next text follows whatever
  happened to this one.
\<close>

fun fallback_trace :: "world \<Rightarrow> string list \<Rightarrow> event list \<Rightarrow> event list" where
  "fallback_trace w [] tr = tr"
| "fallback_trace w (t # ts) tr =
     fallback_trace w ts
       (if gtts_ok w (tr @ [Gtts t]) then tr @ [Gtts t] else tr @ [Gtts t, Pytt t])"

fun opened :: "event list \<Rightarrow> string list" where
  "opened [] = []"
| "opened (Open u # tr) = u # opened tr"
| "opened (_ # tr) = opened tr"

fun http_requests :: "event list \<Rightarrow> string list" where
  "http_requests [] = []"
| "http_requests (HttpGet u # tr) = u # http_requests tr"
| "http_requests (_ # tr) = http_requests tr"

text \<open>A word of \<open>s.split()\<close>: non-empty, no whitespace.\<close>

definition wordish :: "string \<Rightarrow> bool" where
  "wordish w = (w \<noteq> [] \<and> (\<forall>c\<in>set w. \<not> is_space c))"

section \<open>Worlds for the scenarios\<close>

text \<open>Nothing configured, every collaborator works, the catalog of the spec's scenario.\<close>

definition scenario_world :: world where
  "scenario_world =
     \<lparr> NEWS_API_KEY = None, OPENAI_API_KEY = None, OpenAI = False,
       music = Some [(''despacito'', ''url1'')],
       gtts_ok = (\<lambda>tr. True), pytt_ok = (\<lambda>tr. True), browser_ok = (\<lambda>tr. True),
       news_service = (\<lambda>tr. ConnectionFails), ai_service = (\<lambda>tr. None) \<rparr>"

text \<open>A news key is configured and the service answers with three articles, one untitled.\<close>

definition news_world :: world where
  "news_world =
     scenario_world
       \<lparr> NEWS_API_KEY := Some ''k'',
         news_service := (\<lambda>tr. Response 200 (Some (JObj
           [(''status'', JStr ''ok''),
            (''articles'', JArr [JObj [(''title'', JStr ''a'')], JObj [],
                                JObj [(''title'', JStr ''c'')]])]))) \<rparr>"

section \<open>The speech adapter\<close>

lemma gtts_texts_append: "gtts_texts (xs @ ys) = gtts_texts xs @ gtts_texts ys"
  by (induction xs rule: gtts_texts.induct) simp_all

lemma opened_append: "opened (xs @ ys) = opened xs @ opened ys"
  by (induction xs rule: opened.induct) simp_all

lemma http_requests_append: "http_requests (xs @ ys) = http_requests xs @ http_requests ys"
  by (induction xs rule: http_requests.induct) simp_all

lemma speak_with_pygame_run:
  "speak_with_pygame w text tr =
     (Returns (), tr @ Gtts text # (if gtts_ok w (tr @ [Gtts text]) then [] else [Pytt text]))"
  by (simp add: speak_with_pygame_def try_except_def gtts_play_def pytt_say_def call_def
      returns_def Let_def)

lemma and_then_Returns: "m tr = (Returns x, tr') \<Longrightarrow> and_then m f tr = f x tr'"
  by (simp add: and_then_def)

lemma and_then_Raises: "m tr = (Raises e, tr') \<Longrightarrow> and_then m f tr = (Raises e, tr')"
  by (simp add: and_then_def)

lemma seq_Returns: "m tr = (Returns (), tr') \<Longrightarrow> seq m n tr = n tr'"
  by (simp add: seq_def and_then_def)

lemma seq_Raises: "m tr = (Raises e, tr') \<Longrightarrow> seq m n tr = (Raises e, tr')"
  by (simp add: seq_def and_then_def)

lemma try_except_Returns: "m tr = (Returns x, tr') \<Longrightarrow> try_except m h tr = (Returns x, tr')"
  by (simp add: try_except_def)

lemma try_except_Raises: "m tr = (Raises e, tr') \<Longrightarrow> try_except m h tr = h e tr'"
  by (simp add: try_except_def)

lemma for_each_synth_step:
  "for_each (\<lambda>chunk. speak_with_pygame w (chunk @ ''.'')) (c # cs) tr =
     for_each (\<lambda>chunk. speak_with_pygame w (chunk @ ''.'')) cs
       (snd (speak_with_pygame w (c @ ''.'') tr))"
proof -
  have "speak_with_pygame w (c @ ''.'') tr = (Returns (), snd (speak_with_pygame w (c @ ''.'') tr))"
    by (simp add: speak_with_pygame_run)
  then show ?thesis
    using seq_Returns by fastforce
qed

lemma for_each_synth_returns:
  "fst (for_each (\<lambda>chunk. speak_with_pygame w (chunk @ ''.'')) cs tr) = Returns ()"
proof (induction cs arbitrary: tr)
  case Nil
  show ?case by (simp add: returns_def)
next
  case (Cons c cs)
  show ?case unfolding for_each_synth_step by (rule Cons.IH)
qed

lemma for_each_synth_gtts:
  "gtts_texts (snd (for_each (\<lambda>chunk. speak_with_pygame w (chunk @ ''.'')) cs tr))
     = gtts_texts tr @ map (\<lambda>c. c @ ''.'') cs"
proof (induction cs arbitrary: tr)
  case Nil
  show ?case by (simp add: returns_def)
next
  case (Cons c cs)
  show ?case unfolding for_each_synth_step Cons.IH
    by (simp add: speak_with_pygame_run gtts_texts_append)
qed

lemma for_each_synth_opened:
  "opened (snd (for_each (\<lambda>chunk. speak_with_pygame w (chunk @ ''.'')) cs tr)) = opened tr"
proof (induction cs arbitrary: tr)
  case Nil
  show ?case by (simp add: returns_def)
next
  case (Cons c cs)
  show ?case unfolding for_each_synth_step Cons.IH
    by (simp add: speak_with_pygame_run opened_append)
qed

lemma for_each_synth_http:
  "http_requests (snd (for_each (\<lambda>chunk. speak_with_pygame w (chunk @ ''.'')) cs tr))
     = http_requests tr"
proof (induction cs arbitrary: tr)
  case Nil
  show ?case by (simp add: returns_def)
next
  case (Cons c cs)
  show ?case unfolding for_each_synth_step Cons.IH
    by (simp add: speak_with_pygame_run http_requests_append)
qed

lemma speak_str_returns: "fst (speak w (JStr s) tr) = Returns ()"
  by (simp add: speak_def returns_def for_each_synth_returns)

lemma speak_str_gtts:
  "gtts_texts (snd (speak w (JStr s) tr)) = gtts_texts tr @ map (\<lambda>c. c @ ''.'') (chunks s)"
proof (cases "s = []")
  case True
  then show ?thesis by (simp add: speak_def returns_def chunks_def strip_def)
next
  case False
  then show ?thesis by (simp add: speak_def for_each_synth_gtts)
qed

lemma speak_str_opened: "opened (snd (speak w (JStr s) tr)) = opened tr"
  by (simp add: speak_def returns_def for_each_synth_opened)

lemma speak_str_http: "http_requests (snd (speak w (JStr s) tr)) = http_requests tr"
  by (simp add: speak_def returns_def for_each_synth_http)

lemma speak_str_eq: "speak w (JStr s) tr = (Returns (), snd (speak w (JStr s) tr))"
  by (metis prod.collapse speak_str_returns)

lemma chunks_abc: "chunks ''A. B. C.'' = [''A'', ''B'', ''C'']"
  by (simp add: chunks_def strip_def is_space_def)

lemma chunks_noperiod: "chunks ''NoPeriodHere'' = [''NoPeriodHere'']"
  by (simp add: chunks_def strip_def is_space_def)

text \<open>
  C4. The chunker splits the text on the period, trims each segment, drops the empty
  ones and appends one period to each segment left; the synthesis calls follow the
  segments in order. \<open>speak("A. B. C.")\<close> gives the calls \<open>"A."\<close>, \<open>"B."\<close>, \<open>"C."\<close>,
  \<open>speak("")\<close> gives none, \<open>speak("NoPeriodHere")\<close> gives the one call
  \<open>"NoPeriodHere."\<close>.
\<close>

theorem C4_chunker:
  "gtts_texts (snd (speak w (JStr text) tr))
     = gtts_texts tr
       @ map (\<lambda>c. c @ ''.'') (map strip (filter (\<lambda>c. strip c \<noteq> []) (split_on CHR ''.'' [] text)))
   \<and> gtts_texts (snd (speak w (JStr ''A. B. C.'') [])) = [''A.'', ''B.'', ''C.'']
   \<and> speak w (JStr []) [] = (Returns (), [])
   \<and> gtts_texts (snd (speak w (JStr ''NoPeriodHere'') [])) = [''NoPeriodHere.'']"
proof -
  have a: "gtts_texts (snd (speak w (JStr text) tr))
     = gtts_texts tr
       @ map (\<lambda>c. c @ ''.'') (map strip (filter (\<lambda>c. strip c \<noteq> []) (split_on CHR ''.'' [] text)))"
    using speak_str_gtts[of w "text" tr] by (simp add: chunks_def)
  have b: "gtts_texts (snd (speak w (JStr ''A. B. C.'') [])) = [''A.'', ''B.'', ''C.'']"
    by (simp add: speak_str_gtts chunks_abc)
  have c: "speak w (JStr []) [] = (Returns (), [])"
    by (simp add: speak_def returns_def)
  have d: "gtts_texts (snd (speak w (JStr ''NoPeriodHere'') [])) = [''NoPeriodHere.'']"
    by (simp add: speak_str_gtts chunks_noperiod)
  from a b c d show ?thesis by blast
qed

lemma pytt_texts_append: "pytt_texts (xs @ ys) = pytt_texts xs @ pytt_texts ys"
  by (induction xs rule: pytt_texts.induct) simp_all

lemma for_each_synth_trace:
  "snd (for_each (\<lambda>chunk. speak_with_pygame w (chunk @ ''.'')) cs tr)
     = fallback_trace w (map (\<lambda>c. c @ ''.'') cs) tr"
proof (induction cs arbitrary: tr)
  case Nil
  show ?case by (simp add: returns_def)
next
  case (Cons c cs)
  show ?case unfolding for_each_synth_step Cons.IH
    by (simp add: speak_with_pygame_run)
qed

lemma chunks_empty: "chunks [] = []"
  by (simp add: chunks_def strip_def)

lemma speak_str_trace:
  "snd (speak w (JStr s) tr) = fallback_trace w (map (\<lambda>c. c @ ''.'') (chunks s)) tr"
proof (cases "s = []")
  case True
  then show ?thesis by (simp add: speak_def returns_def chunks_empty)
next
  case False
  then show ?thesis by (simp add: speak_def for_each_synth_trace)
qed

lemma fallback_trace_all_fail:
  "\<forall>tr'. \<not> gtts_ok w tr' \<Longrightarrow> pytt_texts (fallback_trace w ts tr) = pytt_texts tr @ ts"
  by (induction ts arbitrary: tr) (simp_all add: pytt_texts_append)

lemma fallback_trace_none_fail:
  "\<forall>tr'. gtts_ok w tr' \<Longrightarrow> pytt_texts (fallback_trace w ts tr) = pytt_texts tr"
  by (induction ts arbitrary: tr) (simp_all add: pytt_texts_append)

text \<open>
  C8. When the primary synthesis path fails on a chunk, the same text goes through the
  secondary path; when that fails too the chunk is dropped and the adapter returns.
  \<open>speak\<close> on a string never raises and attempts every chunk whatever failed before
  it: its whole trace is the one the failure semantics prescribes for its chunks. When
  the primary path always fails, every chunk is retried on the secondary path, in order,
  even when the secondary path fails as well; when it never fails, the secondary path is
  not used.
\<close>

theorem C8_synthesis_fallback:
  "speak_with_pygame w text tr =
     (Returns (), tr @ (if gtts_ok w (tr @ [Gtts text]) then [Gtts text] else [Gtts text, Pytt text]))
   \<and> fst (speak w (JStr s) tr) = Returns ()
   \<and> length (gtts_texts (snd (speak w (JStr s) tr))) = length (gtts_texts tr) + length (chunks s)
   \<and> snd (speak w (JStr s) tr) = fallback_trace w (map (\<lambda>c. c @ ''.'') (chunks s)) tr
   \<and> ((\<forall>tr'. \<not> gtts_ok w tr') \<longrightarrow>
        pytt_texts (snd (speak w (JStr s) tr)) = pytt_texts tr @ map (\<lambda>c. c @ ''.'') (chunks s))
   \<and> ((\<forall>tr'. gtts_ok w tr') \<longrightarrow> pytt_texts (snd (speak w (JStr s) tr)) = pytt_texts tr)"
proof -
  have a: "speak_with_pygame w text tr =
     (Returns (), tr @ (if gtts_ok w (tr @ [Gtts text]) then [Gtts text] else [Gtts text, Pytt text]))"
    by (simp add: speak_with_pygame_run)
  have b: "fst (speak w (JStr s) tr) = Returns ()" by (rule speak_str_returns)
  have c: "length (gtts_texts (snd (speak w (JStr s) tr)))
             = length (gtts_texts tr) + length (chunks s)"
    by (simp add: speak_str_gtts)
  have d: "snd (speak w (JStr s) tr) = fallback_trace w (map (\<lambda>c. c @ ''.'') (chunks s)) tr"
    by (rule speak_str_trace)
  have e: "(\<forall>tr'. \<not> gtts_ok w tr') \<longrightarrow>
        pytt_texts (snd (speak w (JStr s) tr)) = pytt_texts tr @ map (\<lambda>c. c @ ''.'') (chunks s)"
    unfolding d using fallback_trace_all_fail by blast
  have f: "(\<forall>tr'. gtts_ok w tr') \<longrightarrow> pytt_texts (snd (speak w (JStr s) tr)) = pytt_texts tr"
    unfolding d using fallback_trace_none_fail by blast
  from a b c d e f show ?thesis by blast
qed

theorem C8_synthesis_fallback_witness:
  "speak (scenario_world\<lparr>gtts_ok := (\<lambda>tr. False), pytt_ok := (\<lambda>tr. False)\<rparr>)
     (JStr ''A. B.'') []
     = (Returns (), [Gtts ''A.'', Pytt ''A.'', Gtts ''B.'', Pytt ''B.''])
   \<and> pytt_texts (snd (speak (scenario_world\<lparr>gtts_ok := (\<lambda>tr. False), pytt_ok := (\<lambda>tr. False)\<rparr>)
                         (JStr ''A. B.'') []))
     = [''A.'', ''B.'']"
proof -
  let ?w = "scenario_world\<lparr>gtts_ok := (\<lambda>tr. False), pytt_ok := (\<lambda>tr. False)\<rparr>"
  have fl: "\<forall>tr'. \<not> gtts_ok ?w tr'" by simp
  have ch: "map (\<lambda>c. c @ ''.'') (chunks ''A. B.'') = [''A.'', ''B.'']" by code_simp
  have ft: "fallback_trace ?w [''A.'', ''B.''] []
              = [Gtts ''A.'', Pytt ''A.'', Gtts ''B.'', Pytt ''B.'']"
    by simp
  from C8_synthesis_fallback[of ?w _ "[]" "''A. B.''"]
  have f: "fst (speak ?w (JStr ''A. B.'') []) = Returns ()"
    and t: "snd (speak ?w (JStr ''A. B.'') [])
              = fallback_trace ?w (map (\<lambda>c. c @ ''.'') (chunks ''A. B.'')) []"
    and p: "(\<forall>tr'. \<not> gtts_ok ?w tr') \<longrightarrow>
        pytt_texts (snd (speak ?w (JStr ''A. B.'') []))
          = pytt_texts [] @ map (\<lambda>c. c @ ''.'') (chunks ''A. B.'')"
    by blast+
  from t ch ft have t': "snd (speak ?w (JStr ''A. B.'') [])
              = [Gtts ''A.'', Pytt ''A.'', Gtts ''B.'', Pytt ''B.'']"
    by simp
  from p fl ch have p': "pytt_texts (snd (speak ?w (JStr ''A. B.'') [])) = [''A.'', ''B.'']"
    by simp
  from f t' have "speak ?w (JStr ''A. B.'') []
     = (Returns (), [Gtts ''A.'', Pytt ''A.'', Gtts ''B.'', Pytt ''B.''])"
    by (metis prod.collapse)
  with p' show ?thesis by blast
qed

section \<open>Normalization\<close>

lemma lower_char_idem: "lower_char (lower_char c) = lower_char c"
  by (auto simp: lower_char_def Let_def of_char_of)

lemma split_acc_nospace:
  "\<forall>c\<in>set w. \<not> is_space c \<Longrightarrow> split_acc cur (w @ t) = split_acc (cur @ w) t"
  by (induction w arbitrary: cur) auto

lemma split_acc_words:
  "\<forall>c\<in>set cur. \<not> is_space c \<Longrightarrow> w \<in> set (split_acc cur t) \<Longrightarrow>
     w \<noteq> [] \<and> (\<forall>c\<in>set w. \<not> is_space c) \<and> set w \<subseteq> set cur \<union> set t"
proof (induction t arbitrary: cur)
  case Nil
  then show ?case by (auto split: if_splits)
next
  case (Cons c cs)
  show ?case
  proof (cases "is_space c")
    case True
    with Cons.prems have "w = cur \<and> cur \<noteq> [] \<or> w \<in> set (split_acc [] cs)"
      by (auto split: if_splits)
    then show ?thesis
    proof
      assume "w = cur \<and> cur \<noteq> []"
      with Cons.prems show ?thesis by auto
    next
      assume "w \<in> set (split_acc [] cs)"
      from Cons.IH[OF _ this] show ?thesis by auto
    qed
  next
    case False
    with Cons.prems have w: "w \<in> set (split_acc (cur @ [c]) cs)" by simp
    from False Cons.prems have "\<forall>c\<in>set (cur @ [c]). \<not> is_space c" by simp
    from Cons.IH[OF this w] show ?thesis by auto
  qed
qed

lemma split_ws_wordish: "w \<in> set (split_ws s) \<Longrightarrow> wordish w"
  using split_acc_words[of "[]" w s] by (simp add: split_ws_def wordish_def)

lemma split_ws_chars: "w \<in> set (split_ws s) \<Longrightarrow> set w \<subseteq> set s"
  using split_acc_words[of "[]" w s] by (simp add: split_ws_def)

lemma split_acc_word:
  "wordish w \<Longrightarrow> split_acc [] w = [w]"
  using split_acc_nospace[of w "[]" "[]"] by (simp add: wordish_def)

lemma split_acc_word_sp:
  "wordish w \<Longrightarrow> is_space sp \<Longrightarrow> split_acc [] (w @ sp # t) = w # split_acc [] t"
  using split_acc_nospace[of w "[]" "sp # t"] by (simp add: wordish_def)

lemma split_join:
  "\<forall>w\<in>set ws. wordish w \<Longrightarrow> is_space sp \<Longrightarrow> split_ws (join [sp] ws) = ws"
proof (induction ws)
  case Nil
  then show ?case by (simp add: split_ws_def)
next
  case (Cons w ws)
  show ?case
  proof (cases ws)
    case Nil
    with Cons.prems show ?thesis by (simp add: split_acc_word split_ws_def)
  next
    case (Cons v vs)
    with Cons.prems Cons.IH show ?thesis by (simp add: split_acc_word_sp split_ws_def)
  qed
qed

lemma strip_fix:
  "s = [] \<or> (\<not> is_space (hd s) \<and> \<not> is_space (last s)) \<Longrightarrow> strip s = s"
proof (cases s)
  case Nil
  then show ?thesis by (simp add: strip_def)
next
  case (Cons c cs)
  assume "s = [] \<or> (\<not> is_space (hd s) \<and> \<not> is_space (last s))"
  with Cons have h: "\<not> is_space (hd s)" and l: "\<not> is_space (last s)" by auto
  from Cons h have a: "dropWhile is_space s = s" by simp
  from Cons have "s = butlast s @ [last s]" by simp
  moreover from l have "dropWhile is_space (rev (butlast s @ [last s])) = rev (butlast s @ [last s])"
    by simp
  ultimately have "dropWhile is_space (rev s) = rev s" by metis
  with a show ?thesis by (simp add: strip_def)
qed

lemma join_ends:
  "\<forall>w\<in>set ws. wordish w \<Longrightarrow> ws \<noteq> [] \<Longrightarrow>
     join sep ws \<noteq> [] \<and> \<not> is_space (hd (join sep ws)) \<and> \<not> is_space (last (join sep ws))"
proof (induction ws)
  case Nil
  then show ?case by simp
next
  case (Cons w ws)
  show ?case
  proof (cases ws)
    case Nil
    with Cons.prems show ?thesis by (auto simp: wordish_def)
  next
    case (Cons v vs)
    with Cons.prems Cons.IH show ?thesis by (auto simp: wordish_def)
  qed
qed

lemma set_join: "set (join sep ws) \<subseteq> set sep \<union> \<Union> (set ` set ws)"
  by (induction sep ws rule: join.induct) auto

lemma set_strip: "set (strip s) \<subseteq> set s"
  unfolding strip_def by (metis set_rev set_dropWhileD subsetI)

lemma lower_fix: "\<forall>c\<in>set s. lower_char c = c \<Longrightarrow> lower s = s"
  by (simp add: lower_def map_idI)

lemma lower_char_space: "lower_char CHR '' '' = CHR '' ''"
  by (simp add: lower_char_def)

lemma is_space_space: "is_space CHR '' ''"
  by (simp add: is_space_def)

text \<open>
  C9. Normalization is idempotent: normalizing a normalized string changes nothing.
\<close>

theorem C9_normalize_key_idempotent: "normalize_key (normalize_key s) = normalize_key s"
proof -
  define ws where "ws = split_ws (strip (lower s))"
  have words: "\<forall>w\<in>set ws. wordish w"
    using split_ws_wordish by (simp add: ws_def)
  have low: "\<forall>w\<in>set ws. \<forall>c\<in>set w. lower_char c = c"
  proof (intro ballI)
    fix w c assume "w \<in> set ws" "c \<in> set w"
    then have "c \<in> set (strip (lower s))"
      using split_ws_chars[of w "strip (lower s)"] by (auto simp: ws_def)
    then have "c \<in> set (lower s)" using set_strip by blast
    then show "lower_char c = c" by (auto simp: lower_def lower_char_idem)
  qed
  have n: "normalize_key s = join '' '' ws" by (simp add: normalize_key_def ws_def)
  have "\<forall>c\<in>set (join '' '' ws). lower_char c = c"
    using set_join[of "'' ''" ws] low lower_char_space by auto
  then have l: "lower (join '' '' ws) = join '' '' ws" by (rule lower_fix)
  have st: "strip (join '' '' ws) = join '' '' ws"
  proof (cases "ws = []")
    case True
    then show ?thesis by (simp add: strip_def)
  next
    case False
    with words show ?thesis using join_ends[of ws "'' ''"] by (intro strip_fix) simp
  qed
  have sp: "split_ws (join '' '' ws) = ws"
    using split_join[OF words is_space_space] by simp
  show ?thesis unfolding n by (simp add: normalize_key_def[of "join '' '' ws"] l st sp)
qed

theorem C9_normalize_key_idempotent_witness:
  "normalize_key (normalize_key ''  Shape   Of You '') = normalize_key ''  Shape   Of You ''
   \<and> normalize_key ''  Shape   Of You '' = ''shape of you''"
proof -
  have "normalize_key ''  Shape   Of You '' = ''shape of you''" by code_simp
  with C9_normalize_key_idempotent[of "''  Shape   Of You ''"] show ?thesis by simp
qed

section \<open>Song lookup\<close>

lemma find_first_match:
  "\<forall>x\<in>set xs. \<not> P x \<Longrightarrow> P y \<Longrightarrow> find P (xs @ y # ys) = Some y"
  by (induction xs) auto

lemma find_no_match: "\<forall>x\<in>set xs. \<not> P x \<Longrightarrow> find P xs = None"
  by (induction xs) auto

lemma map_of_key_Some: "k \<in> set (map fst m) \<Longrightarrow> \<exists>v. map_of m k = Some v"
  by (induction m) auto

lemma replace_char_append:
  "replace_char a b (xs @ ys) = replace_char a b xs @ replace_char a b ys"
  by (simp add: replace_char_def)

lemma replace_char_word: "wordish w \<Longrightarrow> replace_char CHR '' '' b w = w"
proof -
  assume "wordish w"
  then have "\<forall>c\<in>set w. c \<noteq> CHR '' ''" using is_space_space by (auto simp: wordish_def)
  then show ?thesis by (simp add: replace_char_def map_idI)
qed

lemma replace_char_join:
  "\<forall>w\<in>set ws. wordish w \<Longrightarrow>
     replace_char CHR '' '' CHR ''+'' (join '' '' ws) = join ''+'' ws"
proof (induction ws)
  case Nil
  show ?case by (simp add: replace_char_def)
next
  case (Cons w ws)
  show ?case
  proof (cases ws)
    case Nil
    with Cons.prems show ?thesis by (simp add: replace_char_word)
  next
    case (Cons v vs)
    with Cons.prems Cons.IH show ?thesis
      by (simp add: replace_char_append replace_char_word) (simp add: replace_char_def)
  qed
qed

lemma strip_ends:
  assumes "strip s \<noteq> []"
  shows "\<not> is_space (hd (strip s)) \<and> \<not> is_space (last (strip s))"
proof -
  define xs where "xs = dropWhile is_space s"
  define ys where "ys = dropWhile is_space (rev xs)"
  have st: "strip s = rev ys" by (simp add: strip_def xs_def ys_def)
  with assms have ne: "ys \<noteq> []" by simp
  then have h: "\<not> is_space (hd ys)" unfolding ys_def by (rule hd_dropWhile)
  from ne have l: "last (rev ys) = hd ys" by (simp add: last_rev)
  have "rev xs = takeWhile is_space (rev xs) @ ys" by (simp add: ys_def)
  with ne have "last (rev xs) = last ys" by (metis last_appendR)
  moreover from ne have x: "xs \<noteq> []" by (auto simp: ys_def)
  ultimately have "last ys = hd xs" by (simp add: last_rev)
  moreover from x have "\<not> is_space (hd xs)" unfolding xs_def by (rule hd_dropWhile)
  moreover from ne have "hd (rev ys) = last ys" by (simp add: hd_rev)
  ultimately show ?thesis using st h l by simp
qed

lemma strip_leading: "is_space c \<Longrightarrow> strip (c # s) = strip s"
  by (simp add: strip_def)

lemma split_on_nodot:
  "d \<notin> set s \<Longrightarrow> split_on d cur (s @ d # t) = (cur @ s) # split_on d [] t"
  by (induction s arbitrary: cur) auto

lemma chunks_two:
  assumes "CHR ''.'' \<notin> set a" and "CHR ''.'' \<notin> set b"
    and "strip a = a'" and "a' \<noteq> []" and "strip b = b'" and "b' \<noteq> []"
  shows "chunks (a @ ''.'' @ b @ ''.'') = [a', b']"
proof -
  have "split_on CHR ''.'' [] (a @ CHR ''.'' # (b @ CHR ''.'' # [])) = a # split_on CHR ''.'' [] (b @ CHR ''.'' # [])"
    using split_on_nodot[OF assms(1), of "[]"] by simp
  moreover have "split_on CHR ''.'' [] (b @ CHR ''.'' # []) = [b, []]"
    using split_on_nodot[OF assms(2), of "[]" "[]"] by simp
  ultimately have "split_on CHR ''.'' [] (a @ ''.'' @ b @ ''.'') = [a, b, []]" by simp
  moreover have "strip [] = []" by (simp add: strip_def)
  ultimately show ?thesis using assms(3-6) by (simp add: chunks_def)
qed

lemma chunks_one:
  assumes "CHR ''.'' \<notin> set a" and "strip a = a'" and "a' \<noteq> []"
  shows "chunks (a @ ''.'') = [a']"
proof -
  have "split_on CHR ''.'' [] (a @ CHR ''.'' # []) = [a, []]"
    using split_on_nodot[OF assms(1), of "[]" "[]"] by simp
  moreover have "strip [] = []" by (simp add: strip_def)
  ultimately show ?thesis using assms(2,3) by (simp add: chunks_def)
qed

lemma is_space_P: "\<not> is_space CHR ''P''"
  by (simp add: is_space_def)

lemma is_space_S: "\<not> is_space CHR ''S''"
  by (simp add: is_space_def)

lemma chunks_playing:
  assumes "CHR ''.'' \<notin> set label" and "label \<noteq> []" and "\<not> is_space (last label)"
  shows "chunks (''Playing '' @ label @ ''.'') = [''Playing '' @ label]"
proof -
  let ?a = "''Playing '' @ label"
  have d: "CHR ''.'' \<notin> set ?a" using assms(1) by simp
  have "?a = [] \<or> (\<not> is_space (hd ?a) \<and> \<not> is_space (last ?a))"
    using assms(2,3) is_space_P by simp
  then have s: "strip ?a = ?a" by (rule strip_fix)
  have n: "?a \<noteq> []" by simp
  from chunks_one[OF d s n] show ?thesis by simp
qed

lemma chunks_searching:
  assumes "CHR ''.'' \<notin> set r" and "r \<noteq> []" and "\<not> is_space (last r)"
  shows "chunks (''Couldn't find the exact song locally. Searching YouTube for '' @ r @ ''.'')
           = [''Couldn't find the exact song locally'', ''Searching YouTube for '' @ r]"
proof -
  let ?a = "''Couldn't find the exact song locally''"
  let ?b' = "''Searching YouTube for '' @ r"
  let ?b = "CHR '' '' # ?b'"
  have da: "CHR ''.'' \<notin> set ?a" by simp
  have db: "CHR ''.'' \<notin> set ?b" using assms(1) by simp
  have sa: "strip ?a = ?a" by code_simp
  have "?b' = [] \<or> (\<not> is_space (hd ?b') \<and> \<not> is_space (last ?b'))"
    using assms(2,3) is_space_S by simp
  then have "strip ?b' = ?b'" by (rule strip_fix)
  then have sb: "strip ?b = ?b'" using strip_leading[OF is_space_space, of ?b'] by simp
  have na: "?a \<noteq> []" by simp
  have nb: "?b' \<noteq> []" by simp
  from chunks_two[OF da db sa na sb nb] show ?thesis by simp
qed

lemma play_hit_run:
  "play_hit w url label tr =
     (if browser_ok w (tr @ [Open url])
      then speak w (JStr (''Playing '' @ label @ ''.'')) (tr @ [Open url])
      else (Raises BrowserError, tr @ [Open url]))"
  by (simp add: play_hit_def seq_def and_then_def webbrowser_open_def call_def Let_def)

lemma play_hit_opens: "opened (snd (play_hit w url label tr)) = opened tr @ [url]"
  by (simp add: play_hit_run speak_str_opened opened_append)

lemma play_hit_speaks:
  "browser_ok w (tr @ [Open url]) \<Longrightarrow>
     fst (play_hit w url label tr) = Returns ()
     \<and> gtts_texts (snd (play_hit w url label tr))
         = gtts_texts tr @ map (\<lambda>c. c @ ''.'') (chunks (''Playing '' @ label @ ''.''))"
  by (simp add: play_hit_run speak_str_returns speak_str_gtts gtts_texts_append)

lemma youtube_fallback_run:
  "youtube_fallback w r tr =
     (if browser_ok w (tr @ [Open (''https://www.youtube.com/results?search_query=''
                                     @ replace_char CHR '' '' CHR ''+'' r)])
      then speak w (JStr (''Couldn't find the exact song locally. Searching YouTube for ''
                            @ r @ ''.''))
             (tr @ [Open (''https://www.youtube.com/results?search_query=''
                            @ replace_char CHR '' '' CHR ''+'' r)])
      else (Raises BrowserError,
            tr @ [Open (''https://www.youtube.com/results?search_query=''
                          @ replace_char CHR '' '' CHR ''+'' r)]))"
  by (simp add: youtube_fallback_def seq_def and_then_def webbrowser_open_def call_def Let_def)

lemma youtube_fallback_opens:
  "opened (snd (youtube_fallback w r tr))
     = opened tr @ [''https://www.youtube.com/results?search_query=''
                      @ replace_char CHR '' '' CHR ''+'' r]"
  unfolding youtube_fallback_run by (simp add: speak_str_opened opened_append)

lemma youtube_fallback_speaks:
  "browser_ok w (tr @ [Open (''https://www.youtube.com/results?search_query=''
                                     @ replace_char CHR '' '' CHR ''+'' r)]) \<Longrightarrow>
     fst (youtube_fallback w r tr) = Returns ()
     \<and> gtts_texts (snd (youtube_fallback w r tr))
         = gtts_texts tr @ map (\<lambda>c. c @ ''.'')
             (chunks (''Couldn't find the exact song locally. Searching YouTube for '' @ r @ ''.''))"
  unfolding youtube_fallback_run by (simp add: speak_str_returns speak_str_gtts gtts_texts_append)

lemma handle_play_exact:
  assumes "remainder command_text = rem"
    and "rem \<noteq> []"
    and "\<not> prefix ''http://'' rem" and "\<not> prefix ''https://'' rem"
    and "music w = Some m"
    and "map_of m (normalize_key rem) = Some url"
  shows "handle_play_command w command_text tr = play_hit w url rem tr"
  using assms by (simp add: handle_play_command_def Let_def)

text \<open>
  C1, as amended. The remainder is the lower-cased command with the first \<open>play\<close>
  removed and the ends stripped; its inner whitespace is kept. When it is not empty, not a
  URL, and its normalized form is a key of the catalog, the lookup launches the browser
  on the URL mapped to that key, and on nothing else, and no other tier is tried. When
  the launch returns, the lookup speaks \<open>Playing {remainder}.\<close> and returns: the
  synthesis calls are the chunks of that text, which is the one call
  \<open>Playing {remainder}.\<close> when the remainder has no period.
\<close>

theorem C1_exact_match:
  assumes "rem = strip (remove_first ''play'' (lower command_text))"
    and "rem \<noteq> []"
    and "\<not> prefix ''http://'' rem" and "\<not> prefix ''https://'' rem"
    and "music w = Some m"
    and "map_of m (normalize_key rem) = Some url"
  shows "opened (snd (handle_play_command w command_text tr)) = opened tr @ [url]
         \<and> (browser_ok w (tr @ [Open url]) \<longrightarrow>
               handle_play_command w command_text tr
                 = speak w (JStr (''Playing '' @ rem @ ''.'')) (tr @ [Open url])
             \<and> fst (handle_play_command w command_text tr) = Returns ()
             \<and> gtts_texts (snd (handle_play_command w command_text tr))
                 = gtts_texts tr @ map (\<lambda>c. c @ ''.'') (chunks (''Playing '' @ rem @ ''.'')))
         \<and> (browser_ok w (tr @ [Open url]) \<and> CHR ''.'' \<notin> set rem \<longrightarrow>
               gtts_texts (snd (handle_play_command w command_text tr))
                 = gtts_texts tr @ [''Playing '' @ rem @ ''.''])"
proof -
  have r: "remainder command_text = rem" using assms(1) by (simp add: remainder_def)
  have h: "handle_play_command w command_text tr = play_hit w url rem tr"
    by (rule handle_play_exact[OF r assms(2-6)])
  have a: "opened (snd (handle_play_command w command_text tr)) = opened tr @ [url]"
    unfolding h by (rule play_hit_opens)
  have b: "handle_play_command w command_text tr
                 = speak w (JStr (''Playing '' @ rem @ ''.'')) (tr @ [Open url])
             \<and> fst (handle_play_command w command_text tr) = Returns ()
             \<and> gtts_texts (snd (handle_play_command w command_text tr))
                 = gtts_texts tr @ map (\<lambda>c. c @ ''.'') (chunks (''Playing '' @ rem @ ''.''))"
    if ok: "browser_ok w (tr @ [Open url])"
    unfolding h using ok play_hit_speaks[OF ok, of rem] by (simp add: play_hit_run)
  have l: "\<not> is_space (last rem)"
    using strip_ends[of "remove_first ''play'' (lower command_text)"] assms(1,2) by simp
  have c: "gtts_texts (snd (handle_play_command w command_text tr))
                 = gtts_texts tr @ [''Playing '' @ rem @ ''.'']"
    if ok: "browser_ok w (tr @ [Open url])" and nd: "CHR ''.'' \<notin> set rem"
  proof -
    from b[OF ok] have "gtts_texts (snd (handle_play_command w command_text tr))
                 = gtts_texts tr @ map (\<lambda>c. c @ ''.'') (chunks (''Playing '' @ rem @ ''.''))"
      by blast
    then show ?thesis
      by (simp only: chunks_playing[OF nd assms(2) l] list.map append_assoc)
  qed
  from a b c show ?thesis by blast
qed

lemma handle_play_contains:
  assumes "remainder command_text = rem"
    and "rem \<noteq> []"
    and "\<not> prefix ''http://'' rem" and "\<not> prefix ''https://'' rem"
    and "music w = Some m"
    and "map_of m (normalize_key rem) = None"
    and "find (\<lambda>k. sublist (normalize_key rem) k) (map fst m) = Some k"
    and "map_of m k = Some url"
  shows "handle_play_command w command_text tr = play_hit w url k tr"
  using assms
  by (simp add: handle_play_command_def Let_def dict_item_def and_then_def returns_def)

text \<open>
  C2, as amended. When the remainder is not empty and not a URL, and its normalized form
  is not a key, the first key in the catalog's order that contains it wins, whether or
  not another key starts with the query: the lookup launches the browser on that key's
  URL and on nothing else and, when the launch returns, speaks \<open>Playing {key}.\<close>.
  So a unique containing key is the one chosen, and the starts-with scan is reached only
  when no key contains the query.
\<close>

theorem C2_contains_before_prefix:
  assumes "rem = strip (remove_first ''play'' (lower command_text))"
    and "rem \<noteq> []"
    and "\<not> prefix ''http://'' rem" and "\<not> prefix ''https://'' rem"
    and "music w = Some m"
    and "map_of m (normalize_key rem) = None"
    and "map fst m = ks1 @ k # ks2"
    and "\<forall>k'\<in>set ks1. \<not> sublist (normalize_key rem) k'"
    and "sublist (normalize_key rem) k"
  shows "\<exists>url. map_of m k = Some url
           \<and> handle_play_command w command_text tr
               = seq (webbrowser_open w url) (speak w (JStr (''Playing '' @ k @ ''.''))) tr
           \<and> opened (snd (handle_play_command w command_text tr)) = opened tr @ [url]
           \<and> (browser_ok w (tr @ [Open url]) \<longrightarrow>
                 fst (handle_play_command w command_text tr) = Returns ()
               \<and> gtts_texts (snd (handle_play_command w command_text tr))
                   = gtts_texts tr @ map (\<lambda>c. c @ ''.'') (chunks (''Playing '' @ k @ ''.'')))
           \<and> (browser_ok w (tr @ [Open url]) \<and> CHR ''.'' \<notin> set k \<and> k \<noteq> []
                 \<and> \<not> is_space (last k) \<longrightarrow>
                 gtts_texts (snd (handle_play_command w command_text tr))
                   = gtts_texts tr @ [''Playing '' @ k @ ''.''])"
proof -
  have "k \<in> set (ks1 @ k # ks2)" by simp
  then have "k \<in> set (map fst m)" by (simp only: assms(7))
  then have "\<exists>v. map_of m k = Some v" by (rule map_of_key_Some)
  then obtain url where url: "map_of m k = Some url" ..
  have "find (\<lambda>k. sublist (normalize_key rem) k) (ks1 @ k # ks2) = Some k"
    by (rule find_first_match[where P="\<lambda>k. sublist (normalize_key rem) k", OF assms(8,9)])
  then have f: "find (\<lambda>k. sublist (normalize_key rem) k) (map fst m) = Some k"
    by (simp only: assms(7))
  have r: "remainder command_text = rem" using assms(1) by (simp add: remainder_def)
  have h: "handle_play_command w command_text tr = play_hit w url k tr"
    by (rule handle_play_contains[OF r assms(2-6) f url])
  then have a: "handle_play_command w command_text tr
               = seq (webbrowser_open w url) (speak w (JStr (''Playing '' @ k @ ''.''))) tr"
    by (simp add: play_hit_def)
  have o: "opened (snd (handle_play_command w command_text tr)) = opened tr @ [url]"
    unfolding h by (rule play_hit_opens)
  have b: "fst (handle_play_command w command_text tr) = Returns ()
               \<and> gtts_texts (snd (handle_play_command w command_text tr))
                   = gtts_texts tr @ map (\<lambda>c. c @ ''.'') (chunks (''Playing '' @ k @ ''.''))"
    if ok: "browser_ok w (tr @ [Open url])"
    unfolding h by (rule play_hit_speaks[OF ok])
  have c: "gtts_texts (snd (handle_play_command w command_text tr))
                   = gtts_texts tr @ [''Playing '' @ k @ ''.'']"
    if ok: "browser_ok w (tr @ [Open url])" and nd: "CHR ''.'' \<notin> set k"
      and ne: "k \<noteq> []" and l: "\<not> is_space (last k)"
  proof -
    from b[OF ok] have "gtts_texts (snd (handle_play_command w command_text tr))
                   = gtts_texts tr @ map (\<lambda>c. c @ ''.'') (chunks (''Playing '' @ k @ ''.''))"
      by blast
    then show ?thesis
      by (simp only: chunks_playing[OF nd ne l] list.map append_assoc)
  qed
  from url a o b c show ?thesis by blast
qed

theorem C1_exact_match_witness:
  "opened (snd (handle_play_command scenario_world ''play  Despacito '' [])) = [''url1'']
   \<and> fst (handle_play_command scenario_world ''play  Despacito '' []) = Returns ()
   \<and> gtts_texts (snd (handle_play_command scenario_world ''play  Despacito '' []))
       = [''Playing despacito.'']"
proof -
  have r: "''despacito'' = strip (remove_first ''play'' (lower ''play  Despacito ''))"
    by code_simp
  have k: "map_of [(''despacito'', ''url1'')] (normalize_key ''despacito'') = Some ''url1''"
    by code_simp
  have p: "\<not> prefix ''http://'' ''despacito''" "\<not> prefix ''https://'' ''despacito''"
    by simp_all
  have m: "music scenario_world = Some [(''despacito'', ''url1'')]"
    by (simp add: scenario_world_def)
  have b: "browser_ok scenario_world [Open ''url1'']"
    by (simp add: scenario_world_def)
  have n: "''despacito'' \<noteq> []" by simp
  have d: "CHR ''.'' \<notin> set ''despacito''" by simp
  have eq: "''Playing '' @ ''despacito'' @ ''.'' = ''Playing despacito.''" by simp
  note res = C1_exact_match[OF r n p m k, of "[]",
      unfolded append_Nil opened.simps gtts_texts.simps eq]
  from res b d show ?thesis by blast
qed

text \<open>
  C1 as stated fails: the remainder is not kept as given. For \<open>play Despacito\<close> the
  utterance is \<open>Playing despacito.\<close>, not \<open>Playing Despacito.\<close>.
\<close>

theorem C1_case_counterexample:
  "map_of [(''despacito'', ''url1'')] (normalize_key ''Despacito'') = Some ''url1''
   \<and> handle_play_command scenario_world ''play Despacito'' []
       \<noteq> speak scenario_world (JStr ''Playing Despacito.'') [Open ''url1'']
   \<and> handle_play_command scenario_world ''play Despacito'' []
       = (Returns (), [Open ''url1'', Gtts ''Playing despacito.''])"
  by code_simp

theorem C2_contains_before_prefix_witness:
  "opened (snd (handle_play_command
     (scenario_world\<lparr>music := Some [(''hello world'', ''u1''), (''world cup'', ''u2'')]\<rparr>)
     ''play World'' [])) = [''u1'']
   \<and> gtts_texts (snd (handle_play_command
     (scenario_world\<lparr>music := Some [(''hello world'', ''u1''), (''world cup'', ''u2'')]\<rparr>)
     ''play World'' [])) = [''Playing hello world.'']
   \<and> prefix (normalize_key ''world'') ''world cup''"
proof -
  let ?w = "scenario_world\<lparr>music := Some [(''hello world'', ''u1''), (''world cup'', ''u2'')]\<rparr>"
  let ?m = "[(''hello world'', ''u1''), (''world cup'', ''u2'')]"
  have r: "''world'' = strip (remove_first ''play'' (lower ''play World''))" by code_simp
  have n: "''world'' \<noteq> []" by simp
  have p: "\<not> prefix ''http://'' ''world''" "\<not> prefix ''https://'' ''world''" by simp_all
  have m: "music ?w = Some ?m" by simp
  have e: "map_of ?m (normalize_key ''world'') = None" by code_simp
  have ks: "map fst ?m = [] @ ''hello world'' # [''world cup'']" by simp
  have no: "\<forall>k'\<in>set []. \<not> sublist (normalize_key ''world'') k'" by simp
  have s: "sublist (normalize_key ''world'') ''hello world''" by code_simp
  have u: "map_of ?m ''hello world'' = Some ''u1''" by simp
  have px: "prefix (normalize_key ''world'') ''world cup''" by code_simp
  have b: "browser_ok ?w ([] @ [Open ''u1''])" by (simp add: scenario_world_def)
  have d: "CHR ''.'' \<notin> set ''hello world'' \<and> ''hello world'' \<noteq> []
             \<and> \<not> is_space (last ''hello world'')"
    by (simp add: is_space_def)
  from C2_contains_before_prefix[OF r n p m e ks no s, of "[]"]
  obtain url where x: "map_of ?m ''hello world'' = Some url"
    and o: "opened (snd (handle_play_command ?w ''play World'' [])) = opened [] @ [url]"
    and g: "browser_ok ?w ([] @ [Open url]) \<and> CHR ''.'' \<notin> set ''hello world''
              \<and> ''hello world'' \<noteq> [] \<and> \<not> is_space (last ''hello world'') \<longrightarrow>
            gtts_texts (snd (handle_play_command ?w ''play World'' []))
              = gtts_texts [] @ [''Playing '' @ ''hello world'' @ ''.'']"
    by blast
  from x u have url: "url = ''u1''" by simp
  from o url have o': "opened (snd (handle_play_command ?w ''play World'' [])) = [''u1'']"
    by simp
  from g url b d have "gtts_texts (snd (handle_play_command ?w ''play World'' []))
              = gtts_texts [] @ [''Playing '' @ ''hello world'' @ ''.'']"
    by blast
  then have g': "gtts_texts (snd (handle_play_command ?w ''play World'' []))
              = [''Playing hello world.'']"
    by simp
  from o' g' px show ?thesis by blast
qed

text \<open>
  C2 as stated fails: the empty remainder and a URL remainder never reach the catalog.
  For \<open>play\<close> the empty query is contained in the one key, yet the program asks which
  song to play and opens nothing; for \<open>play http://x\<close> the query is contained in the
  one key, yet the program opens the query itself.
\<close>

theorem C2_guard_counterexample:
  "map_of [(''despacito'', ''url1'')] (normalize_key (remainder ''play'')) = None
   \<and> sublist (normalize_key (remainder ''play'')) ''despacito''
   \<and> opened (snd (handle_play_command scenario_world ''play'' [])) = []
   \<and> gtts_texts (snd (handle_play_command scenario_world ''play'' []))
       = [''Which song should I play?.'']
   \<and> map_of [(''http://x/song'', ''url1'')] (normalize_key (remainder ''play http://x'')) = None
   \<and> sublist (normalize_key (remainder ''play http://x'')) ''http://x/song''
   \<and> opened (snd (handle_play_command
                     (scenario_world\<lparr>music := Some [(''http://x/song'', ''url1'')]\<rparr>)
                     ''play http://x'' [])) = [''http://x'']
   \<and> gtts_texts (snd (handle_play_command
                     (scenario_world\<lparr>music := Some [(''http://x/song'', ''url1'')]\<rparr>)
                     ''play http://x'' [])) = [''Playing from URL.'']"
  by code_simp

lemma handle_play_fallback:
  assumes "remainder command_text = rem"
    and "rem \<noteq> []"
    and "\<not> prefix ''http://'' rem" and "\<not> prefix ''https://'' rem"
    and "case music w of None \<Rightarrow> True
         | Some m \<Rightarrow> map_of m (normalize_key rem) = None
             \<and> find (\<lambda>k. sublist (normalize_key rem) k) (map fst m) = None
             \<and> find (\<lambda>k. prefix (normalize_key rem) k) (map fst m) = None"
  shows "handle_play_command w command_text tr = youtube_fallback w rem tr"
proof (cases "music w")
  case None
  with assms(1-4) show ?thesis by (simp add: handle_play_command_def Let_def)
next
  case (Some m)
  with assms show ?thesis by (simp add: handle_play_command_def Let_def)
qed

text \<open>
  C3, as amended. When the remainder is not empty, not a URL, and the catalog is missing
  or has no exact, containing or starting key, the lookup launches the browser on the
  video-search URL whose query is the remainder with every space character replaced by
  \<open>+\<close>, and on nothing else; when the launch returns it speaks the message that names
  the remainder, two synthesis calls when the remainder has no period. The query is the
  remainder's words joined by single \<open>+\<close> when the words are separated by single
  spaces.
\<close>

theorem C3_web_search_fallback:
  assumes "rem = strip (remove_first ''play'' (lower command_text))"
    and "rem \<noteq> []"
    and "\<not> prefix ''http://'' rem" and "\<not> prefix ''https://'' rem"
    and "case music w of None \<Rightarrow> True
         | Some m \<Rightarrow> map_of m (normalize_key rem) = None
             \<and> (\<forall>k\<in>set (map fst m). \<not> sublist (normalize_key rem) k
                                        \<and> \<not> prefix (normalize_key rem) k)"
    and "search = ''https://www.youtube.com/results?search_query=''
                    @ replace_char CHR '' '' CHR ''+'' rem"
  shows "handle_play_command w command_text tr
           = seq (webbrowser_open w search)
                 (speak w (JStr (''Couldn't find the exact song locally. Searching YouTube for ''
                                   @ rem @ ''.''))) tr
         \<and> opened (snd (handle_play_command w command_text tr)) = opened tr @ [search]
         \<and> (browser_ok w (tr @ [Open search]) \<longrightarrow>
               fst (handle_play_command w command_text tr) = Returns ()
             \<and> gtts_texts (snd (handle_play_command w command_text tr))
                 = gtts_texts tr @ map (\<lambda>c. c @ ''.'')
                     (chunks (''Couldn't find the exact song locally. Searching YouTube for ''
                                @ rem @ ''.'')))
         \<and> (browser_ok w (tr @ [Open search]) \<and> CHR ''.'' \<notin> set rem \<longrightarrow>
               gtts_texts (snd (handle_play_command w command_text tr))
                 = gtts_texts tr @ [''Couldn't find the exact song locally.'',
                                    ''Searching YouTube for '' @ rem @ ''.''])
         \<and> (rem = join '' '' (split_ws rem)
              \<longrightarrow> replace_char CHR '' '' CHR ''+'' rem = join ''+'' (split_ws rem))"
proof -
  have r: "remainder command_text = rem" using assms(1) by (simp add: remainder_def)
  have c: "case music w of None \<Rightarrow> True
         | Some m \<Rightarrow> map_of m (normalize_key rem) = None
             \<and> find (\<lambda>k. sublist (normalize_key rem) k) (map fst m) = None
             \<and> find (\<lambda>k. prefix (normalize_key rem) k) (map fst m) = None"
  proof (cases "music w")
    case None
    then show ?thesis by simp
  next
    case (Some m)
    with assms(5) have e: "map_of m (normalize_key rem) = None"
      and n: "\<forall>k\<in>set (map fst m). \<not> sublist (normalize_key rem) k
                                        \<and> \<not> prefix (normalize_key rem) k"
      by simp_all
    from n have "\<forall>k\<in>set (map fst m). \<not> sublist (normalize_key rem) k" by blast
    then have f1: "find (\<lambda>k. sublist (normalize_key rem) k) (map fst m) = None"
      by (rule find_no_match[where P="\<lambda>k. sublist (normalize_key rem) k"])
    from n have "\<forall>k\<in>set (map fst m). \<not> prefix (normalize_key rem) k" by blast
    then have f2: "find (\<lambda>k. prefix (normalize_key rem) k) (map fst m) = None"
      by (rule find_no_match[where P="\<lambda>k. prefix (normalize_key rem) k"])
    from Some e f1 f2 show ?thesis by simp
  qed
  have h: "handle_play_command w command_text tr = youtube_fallback w rem tr"
    by (rule handle_play_fallback[OF r assms(2-4) c])
  have a: "handle_play_command w command_text tr
           = seq (webbrowser_open w search)
                 (speak w (JStr (''Couldn't find the exact song locally. Searching YouTube for ''
                                   @ rem @ ''.''))) tr"
    unfolding h youtube_fallback_def assms(6) by (rule refl)
  have o: "opened (snd (handle_play_command w command_text tr)) = opened tr @ [search]"
    unfolding h assms(6) by (rule youtube_fallback_opens)
  have g: "fst (handle_play_command w command_text tr) = Returns ()
             \<and> gtts_texts (snd (handle_play_command w command_text tr))
                 = gtts_texts tr @ map (\<lambda>c. c @ ''.'')
                     (chunks (''Couldn't find the exact song locally. Searching YouTube for ''
                                @ rem @ ''.''))"
    if ok: "browser_ok w (tr @ [Open search])"
    using ok unfolding h assms(6) by (rule youtube_fallback_speaks)
  have l: "\<not> is_space (last rem)"
    using strip_ends[of "remove_first ''play'' (lower command_text)"] assms(1,2) by simp
  have x: "gtts_texts (snd (handle_play_command w command_text tr))
                 = gtts_texts tr @ [''Couldn't find the exact song locally.'',
                                    ''Searching YouTube for '' @ rem @ ''.'']"
    if ok: "browser_ok w (tr @ [Open search])" and nd: "CHR ''.'' \<notin> set rem"
  proof -
    from g[OF ok] have "gtts_texts (snd (handle_play_command w command_text tr))
                 = gtts_texts tr @ map (\<lambda>c. c @ ''.'')
                     (chunks (''Couldn't find the exact song locally. Searching YouTube for ''
                                @ rem @ ''.''))"
      by blast
    moreover have "''Couldn't find the exact song locally'' @ ''.''
                     = ''Couldn't find the exact song locally.''"
      by simp
    ultimately show ?thesis
      by (simp only: chunks_searching[OF nd assms(2) l] list.map append_assoc)
  qed
  have b: "rem = join '' '' (split_ws rem)
              \<longrightarrow> replace_char CHR '' '' CHR ''+'' rem = join ''+'' (split_ws rem)"
  proof
    assume j: "rem = join '' '' (split_ws rem)"
    have "\<forall>w\<in>set (split_ws rem). wordish w" using split_ws_wordish by blast
    then have "replace_char CHR '' '' CHR ''+'' (join '' '' (split_ws rem)) = join ''+'' (split_ws rem)"
      by (rule replace_char_join)
    with j show "replace_char CHR '' '' CHR ''+'' rem = join ''+'' (split_ws rem)" by simp
  qed
  from a o g x b show ?thesis by blast
qed

theorem C3_web_search_fallback_witness:
  "opened (snd (handle_play_command scenario_world ''play Hello there'' []))
     = [''https://www.youtube.com/results?search_query=hello+there'']
   \<and> gtts_texts (snd (handle_play_command scenario_world ''play Hello there'' []))
     = [''Couldn't find the exact song locally.'', ''Searching YouTube for hello there.'']
   \<and> replace_char CHR '' '' CHR ''+'' ''hello there'' = join ''+'' (split_ws ''hello there'')"
proof -
  have r: "''hello there'' = strip (remove_first ''play'' (lower ''play Hello there''))"
    by code_simp
  have n: "''hello there'' \<noteq> []" by simp
  have p: "\<not> prefix ''http://'' ''hello there''" "\<not> prefix ''https://'' ''hello there''"
    by simp_all
  have c: "case music scenario_world of None \<Rightarrow> True
         | Some m \<Rightarrow> map_of m (normalize_key ''hello there'') = None
             \<and> (\<forall>k\<in>set (map fst m). \<not> sublist (normalize_key ''hello there'') k
                                        \<and> \<not> prefix (normalize_key ''hello there'') k)"
    by code_simp
  have q: "''https://www.youtube.com/results?search_query=hello+there''
             = ''https://www.youtube.com/results?search_query=''
                 @ replace_char CHR '' '' CHR ''+'' ''hello there''"
    by code_simp
  have j: "''hello there'' = join '' '' (split_ws ''hello there'')" by code_simp
  have b: "browser_ok scenario_world
             [Open ''https://www.youtube.com/results?search_query=hello+there'']"
    by (simp add: scenario_world_def)
  have d: "CHR ''.'' \<notin> set ''hello there''" by simp
  have t: "''Searching YouTube for '' @ ''hello there'' @ ''.''
             = ''Searching YouTube for hello there.''"
    by simp
  note res = C3_web_search_fallback[OF r n p c q, of "[]",
      unfolded append_Nil opened.simps gtts_texts.simps t]
  from res b d j show ?thesis by blast
qed

text \<open>
  C3 as stated fails: a run of spaces gives a run of \<open>+\<close>. For \<open>play a  b\<close> the query
  is \<open>a++b\<close>, not the words joined by one \<open>+\<close>.
\<close>

theorem C3_plus_counterexample:
  "join ''+'' (split_ws ''a  b'') = ''a+b''
   \<and> opened (snd (handle_play_command scenario_world ''play a  b'' []))
       = [''https://www.youtube.com/results?search_query=a++b'']
   \<and> opened (snd (handle_play_command scenario_world ''play a  b'' []))
       \<noteq> [''https://www.youtube.com/results?search_query='' @ join ''+'' (split_ws ''a  b'')]"
  by code_simp

section \<open>Dispatch\<close>

lemma remove_first_prefix:
  "prefix pat s \<Longrightarrow> pat \<noteq> [] \<Longrightarrow> remove_first pat s = drop (length pat) s"
  by (cases s) auto

lemma dispatch_play:
  assumes "\<not> sublist ''open google'' low" and "\<not> sublist ''open facebook'' low"
    and "\<not> sublist ''open youtube'' low" and "\<not> sublist ''open linkedin'' low"
    and "prefix ''play'' low"
  shows "dispatch w c low = handle_play_command w c"
  using assms by (simp add: dispatch_def)

lemma dispatch_news:
  assumes "\<not> sublist ''open google'' low" and "\<not> sublist ''open facebook'' low"
    and "\<not> sublist ''open youtube'' low" and "\<not> sublist ''open linkedin'' low"
    and "\<not> prefix ''play'' low" and "sublist ''news'' low"
  shows "dispatch w c low =
           seq (speak w (JStr ''Fetching the top headlines.''))
             (and_then (get_headlines w ''in'' 5) (for_each (speak w)))"
  using assms by (simp add: dispatch_def)

lemma processCommand_nonempty:
  "strip c0 \<noteq> [] \<Longrightarrow>
     processCommand w c0 tr =
       try_except (dispatch w (strip c0) (lower (strip c0)))
         (\<lambda>e. speak w (JStr ''Sorry, I encountered an error while processing the command.'')) tr"
  by (simp add: processCommand_def Let_def)

lemma handle_play_empty:
  "remainder c = [] \<Longrightarrow> handle_play_command w c tr = speak w (JStr ''Which song should I play?'') tr"
  by (simp add: handle_play_command_def Let_def)

lemma chunks_which_song:
  "chunks ''Which song should I play?'' = [''Which song should I play?'']"
  by code_simp

text \<open>
  C5, as amended. A command that reaches the play branch has its remainder computed from
  the lower-cased command by dropping the four leading characters \<open>play\<close>, whether or
  not they end a word, and stripping the ends. When the remainder is empty the program
  speaks \<open>Which song should I play?\<close>, one synthesis call, and does nothing else: no
  URL is opened.
\<close>

theorem C5_play_remainder:
  assumes "c = strip c0" and "c \<noteq> []"
    and "\<not> sublist ''open google'' (lower c)" and "\<not> sublist ''open facebook'' (lower c)"
    and "\<not> sublist ''open youtube'' (lower c)" and "\<not> sublist ''open linkedin'' (lower c)"
    and "prefix ''play'' (lower c)"
  shows "processCommand w c0 tr =
           try_except (handle_play_command w c)
             (\<lambda>e. speak w (JStr ''Sorry, I encountered an error while processing the command.'')) tr
         \<and> remainder c = strip (drop 4 (lower c))
         \<and> (remainder c = []
              \<longrightarrow> processCommand w c0 tr = speak w (JStr ''Which song should I play?'') tr
                  \<and> fst (processCommand w c0 tr) = Returns ()
                  \<and> gtts_texts (snd (processCommand w c0 tr))
                      = gtts_texts tr @ [''Which song should I play?.'']
                  \<and> opened (snd (processCommand w c0 tr)) = opened tr)"
proof -
  have d: "dispatch w c (lower c) = handle_play_command w c"
    by (rule dispatch_play[OF assms(3-7)])
  have a: "processCommand w c0 tr =
           try_except (handle_play_command w c)
             (\<lambda>e. speak w (JStr ''Sorry, I encountered an error while processing the command.'')) tr"
    using assms(1,2) processCommand_nonempty[of c0 w tr] d by simp
  have "remove_first ''play'' (lower c) = drop (length ''play'') (lower c)"
    by (rule remove_first_prefix[OF assms(7)]) simp
  moreover have "length ''play'' = 4" by simp
  ultimately have b: "remainder c = strip (drop 4 (lower c))"
    by (simp only: remainder_def)
  have e: "remainder c = []
              \<longrightarrow> processCommand w c0 tr = speak w (JStr ''Which song should I play?'') tr
                  \<and> fst (processCommand w c0 tr) = Returns ()
                  \<and> gtts_texts (snd (processCommand w c0 tr))
                      = gtts_texts tr @ [''Which song should I play?.'']
                  \<and> opened (snd (processCommand w c0 tr)) = opened tr"
  proof
    assume "remainder c = []"
    then have h: "handle_play_command w c tr = speak w (JStr ''Which song should I play?'') tr"
      by (rule handle_play_empty)
    have "speak w (JStr ''Which song should I play?'') tr
            = (Returns (), snd (speak w (JStr ''Which song should I play?'') tr))"
      by (rule speak_str_eq)
    with h have "handle_play_command w c tr
            = (Returns (), snd (speak w (JStr ''Which song should I play?'') tr))"
      by simp
    then have "try_except (handle_play_command w c)
             (\<lambda>e. speak w (JStr ''Sorry, I encountered an error while processing the command.'')) tr
            = (Returns (), snd (speak w (JStr ''Which song should I play?'') tr))"
      by (rule try_except_Returns)
    with a have p: "processCommand w c0 tr = speak w (JStr ''Which song should I play?'') tr"
      using speak_str_eq[of w "''Which song should I play?''" tr] by simp
    have o: "opened (snd (speak w (JStr ''Which song should I play?'') tr)) = opened tr"
      by (rule speak_str_opened)
    have f: "fst (speak w (JStr ''Which song should I play?'') tr) = Returns ()"
      by (rule speak_str_returns)
    have g: "gtts_texts (snd (speak w (JStr ''Which song should I play?'') tr))
               = gtts_texts tr @ [''Which song should I play?.'']"
      by (simp add: speak_str_gtts chunks_which_song)
    from p o f g show "processCommand w c0 tr = speak w (JStr ''Which song should I play?'') tr
                  \<and> fst (processCommand w c0 tr) = Returns ()
                  \<and> gtts_texts (snd (processCommand w c0 tr))
                      = gtts_texts tr @ [''Which song should I play?.'']
                  \<and> opened (snd (processCommand w c0 tr)) = opened tr"
      by simp
  qed
  from a b e show ?thesis by blast
qed

theorem C5_play_remainder_witness:
  "remainder ''Play'' = []
   \<and> fst (processCommand scenario_world ''  Play  '' []) = Returns ()
   \<and> gtts_texts (snd (processCommand scenario_world ''  Play  '' []))
       = [''Which song should I play?.'']
   \<and> opened (snd (processCommand scenario_world ''  Play  '' [])) = []"
proof -
  have c: "''Play'' = strip ''  Play  ''" by code_simp
  have n: "''Play'' \<noteq> []" by simp
  have g: "\<not> sublist ''open google'' (lower ''Play'')"
    "\<not> sublist ''open facebook'' (lower ''Play'')"
    "\<not> sublist ''open youtube'' (lower ''Play'')"
    "\<not> sublist ''open linkedin'' (lower ''Play'')"
    by code_simp+
  have p: "prefix ''play'' (lower ''Play'')" by code_simp
  have r: "remainder ''Play'' = []" by code_simp
  note res = C5_play_remainder[OF c n g p, of scenario_world "[]",
      unfolded opened.simps gtts_texts.simps append_Nil]
  from res r show ?thesis by blast
qed

text \<open>
  C5 as stated fails: the removed \<open>play\<close> need not be a whole word. \<open>playlist\<close> is
  routed to the lookup, none of its words is \<open>play\<close>, and the lookup searches for
  \<open>list\<close>.
\<close>

theorem C5_whole_word_counterexample:
  "prefix ''play'' (lower (strip ''playlist''))
   \<and> ''play'' \<notin> set (split_ws (lower (strip ''playlist'')))
   \<and> remainder (strip ''playlist'') = ''list''
   \<and> opened (snd (processCommand scenario_world ''playlist'' []))
       = [''https://www.youtube.com/results?search_query=list'']"
  by code_simp

lemma get_headlines_no_key:
  "NEWS_API_KEY w = None \<or> NEWS_API_KEY w = Some [] \<Longrightarrow>
     get_headlines w country page_size tr =
       (Returns [JStr ''News API key not configured. Put NEWS_API_KEY in client.py.''], tr)"
  by (auto simp: get_headlines_def returns_def)

lemma for_each_speak_one:
  "for_each (speak w) [JStr s] tr = speak w (JStr s) tr"
proof -
  have "speak w (JStr s) tr = (Returns (), snd (speak w (JStr s) tr))" by (rule speak_str_eq)
  then have "seq (speak w (JStr s)) (returns ()) tr = returns () (snd (speak w (JStr s) tr))"
    by (rule seq_Returns)
  then show ?thesis using speak_str_eq[of w s tr] by (simp add: returns_def)
qed

lemma chunks_fetching:
  "chunks ''Fetching the top headlines.'' = [''Fetching the top headlines'']"
  by code_simp

lemma chunks_no_key:
  "chunks ''News API key not configured. Put NEWS_API_KEY in client.py.''
     = [''News API key not configured'', ''Put NEWS_API_KEY in client'', ''py'']"
  by code_simp

text \<open>
  C6, as amended. A command that reaches the news branch (it names none of the four sites,
  does not start with \<open>play\<close>, and contains \<open>news\<close>) while no news key is configured
  makes the program speak \<open>Fetching the top headlines.\<close> and then the
  configuration-missing message, and nothing else; no HTTP request is made.
\<close>

theorem C6_news_without_key:
  assumes "c = strip c0" and "c \<noteq> []"
    and "\<not> sublist ''open google'' (lower c)" and "\<not> sublist ''open facebook'' (lower c)"
    and "\<not> sublist ''open youtube'' (lower c)" and "\<not> sublist ''open linkedin'' (lower c)"
    and "\<not> prefix ''play'' (lower c)" and "sublist ''news'' (lower c)"
    and "NEWS_API_KEY w = None \<or> NEWS_API_KEY w = Some []"
  shows "processCommand w c0 tr
           = speak w (JStr ''News API key not configured. Put NEWS_API_KEY in client.py.'')
               (snd (speak w (JStr ''Fetching the top headlines.'') tr))
         \<and> gtts_texts (snd (processCommand w c0 tr))
           = gtts_texts tr @ [''Fetching the top headlines.'', ''News API key not configured.'',
                              ''Put NEWS_API_KEY in client.'', ''py.'']
         \<and> http_requests (snd (processCommand w c0 tr)) = http_requests tr"
proof -
  let ?f = "''Fetching the top headlines.''"
  let ?m = "''News API key not configured. Put NEWS_API_KEY in client.py.''"
  let ?tr1 = "snd (speak w (JStr ?f) tr)"
  have d: "dispatch w c (lower c) =
           seq (speak w (JStr ?f)) (and_then (get_headlines w ''in'' 5) (for_each (speak w)))"
    by (rule dispatch_news[OF assms(3-8)])
  have s1: "speak w (JStr ?f) tr = (Returns (), ?tr1)" by (rule speak_str_eq)
  have g: "get_headlines w ''in'' 5 ?tr1 = (Returns [JStr ?m], ?tr1)"
    by (rule get_headlines_no_key[OF assms(9)])
  have "and_then (get_headlines w ''in'' 5) (for_each (speak w)) ?tr1
          = for_each (speak w) [JStr ?m] ?tr1"
    using g by (rule and_then_Returns)
  then have h: "and_then (get_headlines w ''in'' 5) (for_each (speak w)) ?tr1
          = speak w (JStr ?m) ?tr1"
    by (simp only: for_each_speak_one)
  have "seq (speak w (JStr ?f)) (and_then (get_headlines w ''in'' 5) (for_each (speak w))) tr
          = and_then (get_headlines w ''in'' 5) (for_each (speak w)) ?tr1"
    using s1 by (rule seq_Returns)
  with d h have b: "dispatch w c (lower c) tr = speak w (JStr ?m) ?tr1" by simp
  have s2: "speak w (JStr ?m) ?tr1 = (Returns (), snd (speak w (JStr ?m) ?tr1))"
    by (rule speak_str_eq)
  from b s2 have "dispatch w c (lower c) tr = (Returns (), snd (speak w (JStr ?m) ?tr1))"
    by simp
  then have "try_except (dispatch w c (lower c))
         (\<lambda>e. speak w (JStr ''Sorry, I encountered an error while processing the command.'')) tr
       = (Returns (), snd (speak w (JStr ?m) ?tr1))"
    by (rule try_except_Returns)
  with assms(1,2) processCommand_nonempty[of c0 w tr] s2
  have p: "processCommand w c0 tr = speak w (JStr ?m) ?tr1" by simp
  have q: "gtts_texts (snd (speak w (JStr ?m) ?tr1))
           = gtts_texts tr @ [''Fetching the top headlines.'', ''News API key not configured.'',
                              ''Put NEWS_API_KEY in client.'', ''py.'']"
    by (simp add: speak_str_gtts chunks_fetching chunks_no_key)
  have t: "http_requests (snd (speak w (JStr ?m) ?tr1)) = http_requests tr"
    by (simp add: speak_str_http)
  from p q t show ?thesis by simp
qed

theorem C6_news_without_key_witness:
  "processCommand scenario_world ''tell me the news'' []
     = speak scenario_world (JStr ''News API key not configured. Put NEWS_API_KEY in client.py.'')
         (snd (speak scenario_world (JStr ''Fetching the top headlines.'') []))
   \<and> http_requests (snd (processCommand scenario_world ''tell me the news'' [])) = []"
proof -
  have c: "''tell me the news'' = strip ''tell me the news''" by code_simp
  have n: "''tell me the news'' \<noteq> []" by simp
  have g: "\<not> sublist ''open google'' (lower ''tell me the news'')"
    "\<not> sublist ''open facebook'' (lower ''tell me the news'')"
    "\<not> sublist ''open youtube'' (lower ''tell me the news'')"
    "\<not> sublist ''open linkedin'' (lower ''tell me the news'')"
    "\<not> prefix ''play'' (lower ''tell me the news'')"
    by code_simp+
  have s: "sublist ''news'' (lower ''tell me the news'')" by code_simp
  have k: "NEWS_API_KEY scenario_world = None \<or> NEWS_API_KEY scenario_world = Some []"
    by (simp add: scenario_world_def)
  note res = C6_news_without_key[OF c n g s k, of "[]", unfolded http_requests.simps]
  from res show ?thesis by blast
qed

text \<open>
  C6 as stated fails: the configuration-missing message is not the only utterance. For
  \<open>tell me the news\<close> the program first speaks \<open>Fetching the top headlines.\<close>.
\<close>

theorem C6_single_utterance_counterexample:
  "sublist ''news'' (lower (strip ''tell me the news''))
   \<and> NEWS_API_KEY scenario_world = None
   \<and> processCommand scenario_world ''tell me the news'' []
       \<noteq> speak scenario_world
           (JStr ''News API key not configured. Put NEWS_API_KEY in client.py.'') []
   \<and> gtts_texts (snd (processCommand scenario_world ''tell me the news'' []))
       = [''Fetching the top headlines.'', ''News API key not configured.'',
          ''Put NEWS_API_KEY in client.'', ''py.'']"
  by code_simp

lemma chunks_apology:
  "chunks ''Sorry, I encountered an error while processing the command.''
     = [''Sorry, I encountered an error while processing the command'']"
  by code_simp

lemma processCommand_returns: "fst (processCommand w c0 tr) = Returns ()"
proof (cases "strip c0 = []")
  case True
  then show ?thesis by (simp add: processCommand_def returns_def)
next
  case False
  let ?h = "\<lambda>e::exn. speak w (JStr ''Sorry, I encountered an error while processing the command.'')"
  have p: "processCommand w c0 tr = try_except (dispatch w (strip c0) (lower (strip c0))) ?h tr"
    using False by (rule processCommand_nonempty)
  obtain r tr1 where d: "dispatch w (strip c0) (lower (strip c0)) tr = (r, tr1)"
    by (cases "dispatch w (strip c0) (lower (strip c0)) tr") blast
  show ?thesis
  proof (cases r)
    case (Returns u)
    with d have "try_except (dispatch w (strip c0) (lower (strip c0))) ?h tr = (Returns u, tr1)"
      by (simp add: try_except_Returns)
    with p show ?thesis by simp
  next
    case (Raises e)
    with d have "try_except (dispatch w (strip c0) (lower (strip c0))) ?h tr = ?h e tr1"
      by (simp add: try_except_Raises)
    with p show ?thesis by (simp add: speak_str_returns)
  qed
qed

text \<open>
  C7. \<open>processCommand\<close> always returns: no exception leaves it. When a branch of the
  dispatch raises, the handler speaks the apology, which is one synthesis call, after
  whatever the branch had done.
\<close>

theorem C7_dispatch_boundary:
  "fst (processCommand w c0 tr) = Returns ()
   \<and> (\<forall>e tr1. strip c0 \<noteq> [] \<and> dispatch w (strip c0) (lower (strip c0)) tr = (Raises e, tr1)
        \<longrightarrow> processCommand w c0 tr
              = speak w (JStr ''Sorry, I encountered an error while processing the command.'') tr1
            \<and> gtts_texts (snd (processCommand w c0 tr))
              = gtts_texts tr1 @ [''Sorry, I encountered an error while processing the command.''])"
proof -
  let ?h = "\<lambda>e::exn. speak w (JStr ''Sorry, I encountered an error while processing the command.'')"
  have b: "processCommand w c0 tr = ?h e tr1
            \<and> gtts_texts (snd (processCommand w c0 tr))
              = gtts_texts tr1 @ [''Sorry, I encountered an error while processing the command.'']"
    if n: "strip c0 \<noteq> []" and d: "dispatch w (strip c0) (lower (strip c0)) tr = (Raises e, tr1)"
    for e tr1
  proof -
    have p: "processCommand w c0 tr = try_except (dispatch w (strip c0) (lower (strip c0))) ?h tr"
      using n by (rule processCommand_nonempty)
    have "try_except (dispatch w (strip c0) (lower (strip c0))) ?h tr = ?h e tr1"
      using d by (rule try_except_Raises)
    with p have q: "processCommand w c0 tr = ?h e tr1" by simp
    then show ?thesis by (simp add: speak_str_gtts chunks_apology)
  qed
  from processCommand_returns[of w c0 tr] b show ?thesis by blast
qed

theorem C7_dispatch_boundary_witness:
  "dispatch (scenario_world\<lparr>browser_ok := (\<lambda>tr. False)\<rparr>) (strip ''open google'')
       (lower (strip ''open google'')) []
     = (Raises BrowserError, [Open ''https://google.com''])
   \<and> fst (processCommand (scenario_world\<lparr>browser_ok := (\<lambda>tr. False)\<rparr>) ''open google'' [])
       = Returns ()
   \<and> gtts_texts (snd (processCommand (scenario_world\<lparr>browser_ok := (\<lambda>tr. False)\<rparr>)
                         ''open google'' []))
       = [''Sorry, I encountered an error while processing the command.'']"
proof -
  let ?w = "scenario_world\<lparr>browser_ok := (\<lambda>tr. False)\<rparr>"
  have n: "strip ''open google'' \<noteq> []" by code_simp
  have d: "dispatch ?w (strip ''open google'') (lower (strip ''open google'')) []
             = (Raises BrowserError, [Open ''https://google.com''])"
    by code_simp
  from C7_dispatch_boundary[of ?w "''open google''" "[]"] n d
  have "fst (processCommand ?w ''open google'' []) = Returns ()"
    and "gtts_texts (snd (processCommand ?w ''open google'' []))
       = gtts_texts [Open ''https://google.com'']
           @ [''Sorry, I encountered an error while processing the command.'']"
    by blast+
  with d show ?thesis by simp
qed

section \<open>Headlines\<close>

lemma comprehension_titles:
  "comprehension (\<lambda>a. dict_get a ''title'' (JStr ''Untitled'')) (map JObj arts) tr
     = (Returns (map (\<lambda>a. case map_of a ''title'' of Some t \<Rightarrow> t | None \<Rightarrow> JStr ''Untitled'') arts),
        tr)"
proof (induction arts)
  case Nil
  show ?case by (simp add: returns_def)
next
  case (Cons a arts)
  have h: "dict_get (JObj a) ''title'' (JStr ''Untitled'') tr
             = (Returns (case map_of a ''title'' of Some t \<Rightarrow> t | None \<Rightarrow> JStr ''Untitled''), tr)"
    by (simp add: dict_get_def returns_def)
  show ?case
    by (simp add: and_then_def h Cons.IH returns_def)
qed

lemma get_headlines_ignores_arguments:
  "get_headlines w country1 page_size1 = get_headlines w country2 page_size2"
  by (simp add: get_headlines_def)

lemma get_headlines_all_titles:
  assumes "NEWS_API_KEY w = Some key" and "key \<noteq> []"
    and "news_service w (tr @ [HttpGet (''https://newsapi.org/v2/top-headlines?country=in&apiKey='' @ key)])
           = Response 200 (Some (JObj data))"
    and "map_of data ''articles'' = Some (JArr (map JObj arts))" and "arts \<noteq> []"
  shows "get_headlines w country page_size tr
           = (Returns (map (\<lambda>a. case map_of a ''title'' of Some t \<Rightarrow> t | None \<Rightarrow> JStr ''Untitled'') arts),
              tr @ [HttpGet (''https://newsapi.org/v2/top-headlines?country=in&apiKey='' @ key)])"
proof -
  let ?url = "''https://newsapi.org/v2/top-headlines?country=in&apiKey='' @ key"
  let ?titles = "map (\<lambda>a. case map_of a ''title'' of Some t \<Rightarrow> t | None \<Rightarrow> JStr ''Untitled'') arts"
  let ?k = "\<lambda>(status_code, body).
                  if status_code \<noteq> 200
                  then returns [JStr (''Failed to fetch news: HTTP '' @ str_int status_code)]
                  else and_then (r_json body) (\<lambda>data.
                       and_then (dict_get data ''articles'' (JArr [])) (\<lambda>articles.
                       if \<not> truthy articles then returns [JStr ''No news articles found.'']
                       else and_then (iterate articles)
                              (comprehension (\<lambda>a. dict_get a ''title'' (JStr ''Untitled'')))))"
  define tr1 where "tr1 = tr @ [HttpGet ?url]"
  have rq: "requests_get w ?url tr = (Returns (200, Some (JObj data)), tr1)"
    using assms(3) by (simp add: requests_get_def Let_def tr1_def)
  have "and_then (requests_get w ?url) ?k tr = ?k (200, Some (JObj data)) tr1"
    using rq by (rule and_then_Returns)
  moreover have "?k (200, Some (JObj data)) tr1 = (Returns ?titles, tr1)"
  proof -
    have j: "r_json (Some (JObj data)) tr1 = (Returns (JObj data), tr1)"
      by (simp add: r_json_def returns_def)
    have g: "dict_get (JObj data) ''articles'' (JArr []) tr1 = (Returns (JArr (map JObj arts)), tr1)"
      using assms(4) by (simp add: dict_get_def returns_def)
    have it: "iterate (JArr (map JObj arts)) tr1 = (Returns (map JObj arts), tr1)"
      by (simp add: iterate_def returns_def)
    show ?thesis
      using assms(5) by (simp add: and_then_def j g it comprehension_titles)
  qed
  ultimately have body: "and_then (requests_get w ?url) ?k tr = (Returns ?titles, tr1)"
    by simp
  have "try_except (and_then (requests_get w ?url) ?k) (\<lambda>e. returns [JStr ''Error fetching news.'']) tr
          = (Returns ?titles, tr1)"
    using body by (rule try_except_Returns)
  then show ?thesis using assms(1,2) by (simp add: get_headlines_def tr1_def)
qed

lemma dict_get_trace: "snd (dict_get d k dflt tr) = tr"
  by (cases d) (simp_all add: dict_get_def returns_def raises_def)

lemma and_then_trace:
  assumes "snd (m tr) = tr" and "\<And>x. snd (f x tr) = tr"
  shows "snd (and_then m f tr) = tr"
proof (cases "m tr")
  case (Pair r tr')
  with assms(1) have t: "tr' = tr" by simp
  show ?thesis
  proof (cases r)
    case (Returns x)
    with Pair t have "and_then m f tr = f x tr" by (simp add: and_then_def)
    with assms(2) show ?thesis by simp
  next
    case (Raises e)
    with Pair t show ?thesis by (simp add: and_then_def)
  qed
qed

lemma comprehension_trace:
  "snd (comprehension (\<lambda>a. dict_get a k d) xs tr) = tr"
proof (induction xs)
  case Nil
  show ?case by (simp add: returns_def)
next
  case (Cons x xs)
  have "snd (and_then (comprehension (\<lambda>a. dict_get a k d) xs) (\<lambda>ys. returns (y # ys)) tr) = tr"
    for y
    by (rule and_then_trace) (simp_all add: Cons.IH returns_def)
  then show ?case
    by (simp add: and_then_trace dict_get_trace)
qed

lemma iterate_trace: "snd (iterate v tr) = tr"
  by (cases v) (simp_all add: iterate_def returns_def raises_def)

lemma r_json_trace: "snd (r_json body tr) = tr"
  by (cases body) (simp_all add: r_json_def returns_def raises_def)

lemma get_headlines_request:
  assumes "NEWS_API_KEY w = Some key" and "key \<noteq> []"
  shows "snd (get_headlines w country page_size tr)
           = tr @ [HttpGet (''https://newsapi.org/v2/top-headlines?country=in&apiKey='' @ key)]"
proof -
  let ?url = "''https://newsapi.org/v2/top-headlines?country=in&apiKey='' @ key"
  let ?k = "\<lambda>(status_code, body).
                  if status_code \<noteq> 200
                  then returns [JStr (''Failed to fetch news: HTTP '' @ str_int status_code)]
                  else and_then (r_json body) (\<lambda>data.
                       and_then (dict_get data ''articles'' (JArr [])) (\<lambda>articles.
                       if \<not> truthy articles then returns [JStr ''No news articles found.'']
                       else and_then (iterate articles)
                              (comprehension (\<lambda>a. dict_get a ''title'' (JStr ''Untitled'')))))"
  define tr1 where "tr1 = tr @ [HttpGet ?url]"
  have parse: "snd (?k (st, body) tr1) = tr1" for st body
  proof (cases "st \<noteq> 200")
    case True
    then show ?thesis by (simp add: returns_def)
  next
    case False
    have "snd (and_then (r_json body) (\<lambda>data.
                       and_then (dict_get data ''articles'' (JArr [])) (\<lambda>articles.
                       if \<not> truthy articles then returns [JStr ''No news articles found.'']
                       else and_then (iterate articles)
                              (comprehension (\<lambda>a. dict_get a ''title'' (JStr ''Untitled''))))) tr1) = tr1"
      by (intro and_then_trace r_json_trace dict_get_trace)
         (simp add: returns_def and_then_trace iterate_trace comprehension_trace)
    with False show ?thesis by simp
  qed
  have body: "snd (try_except (and_then (requests_get w ?url) ?k)
                     (\<lambda>e. returns [JStr ''Error fetching news.'']) tr) = tr1"
  proof (cases "news_service w tr1")
    case ConnectionFails
    then have "requests_get w ?url tr = (Raises RequestsError, tr1)"
      by (simp add: requests_get_def Let_def tr1_def)
    then have "and_then (requests_get w ?url) ?k tr = (Raises RequestsError, tr1)"
      by (rule and_then_Raises)
    then have "try_except (and_then (requests_get w ?url) ?k)
                     (\<lambda>e. returns [JStr ''Error fetching news.'']) tr
               = returns [JStr ''Error fetching news.''] tr1"
      by (rule try_except_Raises)
    then show ?thesis by (simp add: returns_def)
  next
    case (Response st body)
    then have "requests_get w ?url tr = (Returns (st, body), tr1)"
      by (simp add: requests_get_def Let_def tr1_def)
    then have a: "and_then (requests_get w ?url) ?k tr = ?k (st, body) tr1"
      by (rule and_then_Returns)
    obtain r where r: "?k (st, body) tr1 = (r, tr1)"
      using parse[of st body] by (cases "?k (st, body) tr1") simp
    show ?thesis
    proof (cases r)
      case (Returns x)
      with a r have "and_then (requests_get w ?url) ?k tr = (Returns x, tr1)" by simp
      then have "try_except (and_then (requests_get w ?url) ?k)
                     (\<lambda>e. returns [JStr ''Error fetching news.'']) tr = (Returns x, tr1)"
        by (rule try_except_Returns)
      then show ?thesis by simp
    next
      case (Raises e)
      with a r have "and_then (requests_get w ?url) ?k tr = (Raises e, tr1)" by simp
      then have "try_except (and_then (requests_get w ?url) ?k)
                     (\<lambda>e. returns [JStr ''Error fetching news.'']) tr
                 = returns [JStr ''Error fetching news.''] tr1"
        by (rule try_except_Raises)
      then show ?thesis by (simp add: returns_def)
    qed
  qed
  then show ?thesis using assms by (simp add: get_headlines_def tr1_def)
qed

text \<open>
  C10. \<open>get_headlines\<close> ignores both parameters: with the same world and trace, two
  calls with different arguments give the same result and the same request. With a key
  configured the one request goes to the URL with \<open>country=in\<close>, whatever the country
  argument and whatever the service answers. When the service answers 200 with a
  non-empty list of article objects the result has one title per article, the default
  title filling in, whatever the page size is.
\<close>

theorem C10_get_headlines_ignores_parameters:
  "get_headlines w country1 page_size1 tr = get_headlines w country2 page_size2 tr
   \<and> (\<forall>key. NEWS_API_KEY w = Some key \<and> key \<noteq> []
       \<longrightarrow> snd (get_headlines w country1 page_size1 tr)
           = tr @ [HttpGet (''https://newsapi.org/v2/top-headlines?country=in&apiKey='' @ key)])
   \<and> (\<forall>key data arts.
         NEWS_API_KEY w = Some key \<and> key \<noteq> []
         \<and> news_service w
             (tr @ [HttpGet (''https://newsapi.org/v2/top-headlines?country=in&apiKey='' @ key)])
             = Response 200 (Some (JObj data))
         \<and> map_of data ''articles'' = Some (JArr (map JObj arts)) \<and> arts \<noteq> []
       \<longrightarrow> get_headlines w country1 page_size1 tr
           = (Returns (map (\<lambda>a. case map_of a ''title'' of Some t \<Rightarrow> t
                                 | None \<Rightarrow> JStr ''Untitled'') arts),
              tr @ [HttpGet (''https://newsapi.org/v2/top-headlines?country=in&apiKey='' @ key)]))"
proof -
  have a: "get_headlines w country1 page_size1 tr = get_headlines w country2 page_size2 tr"
    by (simp only: get_headlines_ignores_arguments[of w country1 page_size1 country2 page_size2])
  have b: "\<forall>key. NEWS_API_KEY w = Some key \<and> key \<noteq> []
       \<longrightarrow> snd (get_headlines w country1 page_size1 tr)
           = tr @ [HttpGet (''https://newsapi.org/v2/top-headlines?country=in&apiKey='' @ key)]"
    using get_headlines_request[of w _ country1 page_size1 tr] by blast
  from a b get_headlines_all_titles[of w _ tr _ _ country1 page_size1] show ?thesis by blast
qed

theorem C10_get_headlines_ignores_parameters_witness:
  "get_headlines news_world ''us'' 1 [] = get_headlines news_world ''in'' 5 []
   \<and> get_headlines news_world ''us'' 1 []
       = (Returns [JStr ''a'', JStr ''Untitled'', JStr ''c''],
          [HttpGet ''https://newsapi.org/v2/top-headlines?country=in&apiKey=k''])"
proof -
  let ?arts = "[[(''title'', JStr ''a'')], [], [(''title'', JStr ''c'')]]"
  let ?data = "[(''status'', JStr ''ok''), (''articles'', JArr (map JObj ?arts))]"
  have k: "NEWS_API_KEY news_world = Some ''k''" by (simp add: news_world_def)
  have n: "''k'' \<noteq> []" by simp
  have s: "news_service news_world
             ([] @ [HttpGet (''https://newsapi.org/v2/top-headlines?country=in&apiKey='' @ ''k'')])
           = Response 200 (Some (JObj ?data))"
    by (simp add: news_world_def)
  have m: "map_of ?data ''articles'' = Some (JArr (map JObj ?arts))" by simp
  have e: "?arts \<noteq> []" by simp
  from C10_get_headlines_ignores_parameters[of news_world "''us''" 1 "[]" "''in''" 5]
  have a: "get_headlines news_world ''us'' 1 [] = get_headlines news_world ''in'' 5 []"
    and b: "\<forall>key data arts.
         NEWS_API_KEY news_world = Some key \<and> key \<noteq> []
         \<and> news_service news_world
             ([] @ [HttpGet (''https://newsapi.org/v2/top-headlines?country=in&apiKey='' @ key)])
             = Response 200 (Some (JObj data))
         \<and> map_of data ''articles'' = Some (JArr (map JObj arts)) \<and> arts \<noteq> []
       \<longrightarrow> get_headlines news_world ''us'' 1 []
           = (Returns (map (\<lambda>a. case map_of a ''title'' of Some t \<Rightarrow> t
                                 | None \<Rightarrow> JStr ''Untitled'') arts),
              [] @ [HttpGet (''https://newsapi.org/v2/top-headlines?country=in&apiKey='' @ key)])"
    by blast+
  from b k n s m e
  have "get_headlines news_world ''us'' 1 []
           = (Returns (map (\<lambda>a. case map_of a ''title'' of Some t \<Rightarrow> t
                                 | None \<Rightarrow> JStr ''Untitled'') ?arts),
              [] @ [HttpGet (''https://newsapi.org/v2/top-headlines?country=in&apiKey='' @ ''k'')])"
    by blast
  then have "get_headlines news_world ''us'' 1 []
       = (Returns [JStr ''a'', JStr ''Untitled'', JStr ''c''],
          [HttpGet ''https://newsapi.org/v2/top-headlines?country=in&apiKey=k''])"
    by simp
  with a show ?thesis by blast
qed

end
